theory Spec2Isabelle
  imports Complex_Main "HOL-Library.Sublist"
begin

section \<open>Strings and paths\<close>

text \<open>
  Export identifiers, schema names and paths are JavaScript strings. They are modelled as
  \<^typ>\<open>string\<close>, one \<^typ>\<open>char\<close> per UTF-16 code unit, which is exact for ASCII text.
  The string methods the scanner calls are written out with the argument order of the
  method call: \<open>endsWith s t\<close> is \<^verbatim>\<open>s.endsWith(t)\<close>.
\<close>

definition endsWith :: "string \<Rightarrow> string \<Rightarrow> bool" where
  "endsWith s t = (length t \<le> length s \<and> drop (length s - length t) s = t)"

definition startsWith :: "string \<Rightarrow> string \<Rightarrow> bool" where
  "startsWith s t = (take (length t) s = t)"

text \<open>
  \<^verbatim>\<open>s.slice(0, -k)\<close> keeps everything but the last \<open>k\<close> code units, and nothing when the
  string is shorter than \<open>k\<close>; \<^verbatim>\<open>s.slice(k)\<close> drops the first \<open>k\<close>.
\<close>

definition slice_to_minus :: "string \<Rightarrow> nat \<Rightarrow> string" where
  "slice_to_minus s k = take (length s - k) s"

definition slice_from :: "string \<Rightarrow> nat \<Rightarrow> string" where
  "slice_from s k = drop k s"

text \<open>
  \<^verbatim>\<open>toUpperCase\<close> on ASCII: the letters \<open>a\<close> to \<open>z\<close> (codes 97 to 122) move down by 32,
  every other character is left as it is. JavaScript also changes letters outside ASCII;
  names with such letters are outside this model.
\<close>

definition upper_char :: "char \<Rightarrow> char" where
  "upper_char c =
     (let n = (of_char c :: nat) in if 97 \<le> n \<and> n \<le> 122 then char_of (n - 32) else c)"

definition toUpperCase :: "string \<Rightarrow> string" where
  "toUpperCase s = map upper_char s"

text \<open>The character class \<^verbatim>\<open>[A-Z]\<close> of a regular expression (codes 65 to 90).\<close>

definition is_A_Z :: "char \<Rightarrow> bool" where
  "is_A_Z c = (let n = (of_char c :: nat) in 65 \<le> n \<and> n \<le> 90)"

text \<open>
  Two functions of Node's \<^verbatim>\<open>path\<close> module are called by the program. They belong to
  the runtime, not to the repository, and are modelled on POSIX paths for the arguments
  the program passes: \<^verbatim>\<open>path.basename(p, ext)\<close> for the path \<open>p\<close> of a file (the part after
  the last separator, without \<open>ext\<close> when that part ends with \<open>ext\<close> and is longer than
  it), and \<^verbatim>\<open>path.join(dir, file)\<close> for a resolved directory and a plain file name.
\<close>

definition last_segment :: "string \<Rightarrow> string" where
  "last_segment p = rev (takeWhile (\<lambda>c. c \<noteq> CHR ''/'') (rev p))"

definition basename :: "string \<Rightarrow> string \<Rightarrow> string" where
  "basename p ext =
     (let b = last_segment p
      in if ext \<noteq> [] \<and> endsWith b ext \<and> b \<noteq> ext then slice_to_minus b (length ext) else b)"

definition path_join :: "string \<Rightarrow> string \<Rightarrow> string" where
  "path_join dir file = dir @ ''/'' @ file"

section \<open>Runtime values and the schema classifier (types.ts)\<close>

text \<open>
  A JavaScript value, as far as \<^verbatim>\<open>typeof\<close>, truthiness, the \<^verbatim>\<open>in\<close> operator and property
  reads see it. An object or a function carries its properties (its own and the
  inherited ones) as a list of keys and values; a property can be present and hold
  \<^verbatim>\<open>undefined\<close>. Arrays are objects.
\<close>

datatype jsval =
    VUndefined
  | VNull
  | VBoolean bool
  | VNumber real
  | VNaN
  | VInfinity bool
  | VString string
  | VBigInt int
  | VSymbol string
  | VFunction "(string \<times> jsval) list"
  | VObject "(string \<times> jsval) list"

fun typeof :: "jsval \<Rightarrow> string" where
  "typeof VUndefined = ''undefined''"
| "typeof VNull = ''object''"
| "typeof (VBoolean b) = ''boolean''"
| "typeof (VNumber r) = ''number''"
| "typeof VNaN = ''number''"
| "typeof (VInfinity b) = ''number''"
| "typeof (VString s) = ''string''"
| "typeof (VBigInt i) = ''bigint''"
| "typeof (VSymbol s) = ''symbol''"
| "typeof (VFunction ps) = ''function''"
| "typeof (VObject ps) = ''object''"

fun truthy :: "jsval \<Rightarrow> bool" where
  "truthy VUndefined = False"
| "truthy VNull = False"
| "truthy (VBoolean b) = b"
| "truthy (VNumber r) = (r \<noteq> 0)"
| "truthy VNaN = False"
| "truthy (VInfinity b) = True"
| "truthy (VString s) = (s \<noteq> [])"
| "truthy (VBigInt i) = (i \<noteq> 0)"
| "truthy (VSymbol s) = True"
| "truthy (VFunction ps) = True"
| "truthy (VObject ps) = True"

text \<open>
  \<open>has_property k v\<close> is \<^verbatim>\<open>k in v\<close> and \<open>get_property v k\<close> is \<^verbatim>\<open>v.k\<close>. The classifier
  applies them to objects only (its \<^verbatim>\<open>typeof\<close> tests come first).
\<close>

fun properties :: "jsval \<Rightarrow> (string \<times> jsval) list" where
  "properties (VObject ps) = ps"
| "properties (VFunction ps) = ps"
| "properties v = []"

definition has_property :: "string \<Rightarrow> jsval \<Rightarrow> bool" where
  "has_property k v = (k \<in> set (map fst (properties v)))"

definition get_property :: "jsval \<Rightarrow> string \<Rightarrow> jsval" where
  "get_property v k = (case map_of (properties v) k of None \<Rightarrow> VUndefined | Some x \<Rightarrow> x)"

definition isZodSchema :: "jsval \<Rightarrow> bool" where
  "isZodSchema v =
     (if \<not> truthy v \<or> typeof v \<noteq> ''object'' then False
      else if has_property ''_zod'' v \<and> truthy (get_property v ''_zod'')
              \<and> typeof (get_property v ''_zod'') = ''object''
              \<and> has_property ''def'' (get_property v ''_zod'')
      then True
      else if has_property ''_def'' v \<and> truthy (get_property v ''_def'')
              \<and> typeof (get_property v ''_def'') = ''object''
      then True
      else False)"

section \<open>Scanner (scanner.ts)\<close>

record 'a SchemaExport =
  name :: string
  schema :: 'a

record 'a SchemaFile =
  filePath :: string
  schemas :: "'a SchemaExport list"

text \<open>
  \<^verbatim>\<open>isLikelySchemaName\<close>: some pattern of \<^verbatim>\<open>/Schema$/\<close>, \<^verbatim>\<open>/Zod$/\<close>, \<^verbatim>\<open>/^z[A-Z]/\<close>,
  \<^verbatim>\<open>/Validator$/\<close> matches the name.
\<close>

definition matches_z_upper :: "string \<Rightarrow> bool" where
  "matches_z_upper s =
     (case s of c # d # _ \<Rightarrow> c = CHR ''z'' \<and> is_A_Z d | _ \<Rightarrow> False)"

definition isLikelySchemaName :: "string \<Rightarrow> bool" where
  "isLikelySchemaName s =
     (endsWith s ''Schema'' \<or> endsWith s ''Zod'' \<or> matches_z_upper s \<or> endsWith s ''Validator'')"

text \<open>
  \<^verbatim>\<open>normalizeSchemaName\<close>: the suffix step is an \<^verbatim>\<open>if\<close>/\<^verbatim>\<open>else if\<close>; the prefix step
  tests \<^verbatim>\<open>normalized[1] === normalized[1].toUpperCase()\<close>, where \<^verbatim>\<open>normalized[1]\<close> is the
  one-character string at index 1 (the length test before it makes the index valid).
\<close>

definition normalizeSchemaName :: "string \<Rightarrow> string" where
  "normalizeSchemaName s =
     (let normalized =
            (if endsWith s ''Schema'' then slice_to_minus s 6
             else if endsWith s ''Zod'' then slice_to_minus s 3
             else s)
      in if startsWith normalized ''z'' \<and> length normalized > 1
            \<and> [normalized ! 1] = toUpperCase [normalized ! 1]
         then slice_from normalized 1
         else normalized)"

text \<open>
  \<^verbatim>\<open>extractSchemasFromFile\<close> imports the module and walks \<^verbatim>\<open>Object.entries(module)\<close>.
  The import is the environment's part: the model takes the entries of the loaded
  module, in their order, and runs the loop over them. (\<^verbatim>\<open>verbose\<close> is the flag of the
  source.)
\<close>

definition extract_entry ::
  "bool \<Rightarrow> jsval SchemaExport list \<Rightarrow> string \<times> jsval \<Rightarrow> jsval SchemaExport list" where
  "extract_entry verbose acc entry =
     (let exportName = fst entry; exportValue = snd entry
      in if exportName = ''default'' then acc
         else if isZodSchema exportValue then
           (if endsWith exportName ''Schema'' \<or> endsWith exportName ''Zod''
               \<or> isLikelySchemaName exportName
            then acc @ [\<lparr>name = normalizeSchemaName exportName, schema = exportValue\<rparr>]
            else if verbose then acc @ [\<lparr>name = exportName, schema = exportValue\<rparr>]
            else acc)
         else acc)"

definition extractSchemasFromFile ::
  "(string \<times> jsval) list \<Rightarrow> bool \<Rightarrow> jsval SchemaExport list" where
  "extractSchemasFromFile entries verbose = foldl (extract_entry verbose) [] entries"

text \<open>
  \<^verbatim>\<open>scanDirectory\<close>, from the list of files the glob returned. \<open>load\<close> is the dynamic
  import: the entries of the module, or the error it raised, which skips the file.
\<close>

definition scan_file ::
  "(string \<Rightarrow> string + (string \<times> jsval) list) \<Rightarrow> string \<Rightarrow> bool
     \<Rightarrow> jsval SchemaFile list \<Rightarrow> string \<Rightarrow> jsval SchemaFile list" where
  "scan_file load absoluteDir verbose results file =
     (let fp = path_join absoluteDir file
      in case load fp of
           Inl err \<Rightarrow> results
         | Inr entries \<Rightarrow>
             (let found = extractSchemasFromFile entries verbose
              in if length found > 0 then results @ [\<lparr>filePath = fp, schemas = found\<rparr>]
                 else results))"

definition scanDirectory ::
  "(string \<Rightarrow> string + (string \<times> jsval) list) \<Rightarrow> string \<Rightarrow> string list \<Rightarrow> bool
     \<Rightarrow> jsval SchemaFile list" where
  "scanDirectory load absoluteDir files verbose =
     foldl (scan_file load absoluteDir verbose) [] files"

text \<open>
  \<^verbatim>\<open>flattenSchemas\<close>: the two nested loops over the mutable array \<^verbatim>\<open>schemas\<close> and the set
  \<^verbatim>\<open>seenNames\<close>.
\<close>

record 'a flatten_state =
  emitted :: "'a SchemaExport list"
  seenNames :: "string set"

definition flatten_export ::
  "string \<Rightarrow> 'a flatten_state \<Rightarrow> 'a SchemaExport \<Rightarrow> 'a flatten_state" where
  "flatten_export fp st e =
     (let nm = (if name e \<in> seenNames st then basename fp ''.ts'' @ ''_'' @ name e
                else name e)
      in if nm \<notin> seenNames st
         then \<lparr>emitted = emitted st @ [\<lparr>name = nm, schema = schema e\<rparr>],
               seenNames = insert nm (seenNames st)\<rparr>
         else st)"

definition flatten_file :: "'a flatten_state \<Rightarrow> 'a SchemaFile \<Rightarrow> 'a flatten_state" where
  "flatten_file st f = foldl (flatten_export (filePath f)) st (schemas f)"

definition flattenSchemas :: "'a SchemaFile list \<Rightarrow> 'a SchemaExport list" where
  "flattenSchemas scanResults =
     emitted (foldl flatten_file \<lparr>emitted = [], seenNames = {}\<rparr> scanResults)"

section \<open>Converter adapter and output writers (index.ts)\<close>

subsection \<open>JSON values and JavaScript objects\<close>

text \<open>
  A JSON value is a tree. An object is the list of its own properties in the order in
  which JavaScript enumerates them, which is the order \<^verbatim>\<open>JSON.stringify\<close> writes them in.
\<close>

datatype json =
    JNull
  | JBool bool
  | JNum real
  | JStr string
  | JArr "json list"
  | JObj "(string \<times> json) list"

type_synonym document = "(string \<times> json) list"

definition has_key :: "string \<Rightarrow> document \<Rightarrow> bool" where
  "has_key k doc = (k \<in> set (map fst doc))"

text \<open>
  The rest pattern \<^verbatim>\<open>const { $schema, ...schemaWithoutMeta } = jsonSchema\<close> copies every
  property but \<^verbatim>\<open>$schema\<close>, in order.
\<close>

definition without_key :: "string \<Rightarrow> document \<Rightarrow> document" where
  "without_key k doc = filter (\<lambda>kv. fst kv \<noteq> k) doc"

text \<open>
  The order of the own properties of an object: first the keys that are array indices
  (the decimal numeral, without leading zeros, of a number below \<open>2\<^sup>3\<^sup>2 - 1\<close>) in
  ascending numeric order, then every other key in the order of creation.
  \<open>array_index k\<close> is the number of an array-index key.
\<close>

definition is_digit :: "char \<Rightarrow> bool" where
  "is_digit c = (let n = (of_char c :: nat) in 48 \<le> n \<and> n \<le> 57)"

definition decimal_value :: "string \<Rightarrow> nat" where
  "decimal_value s = foldl (\<lambda>a c. 10 * a + (of_char c - 48)) 0 s"

definition array_index :: "string \<Rightarrow> nat option" where
  "array_index k =
     (if k \<noteq> [] \<and> list_all is_digit k \<and> (k = ''0'' \<or> take 1 k \<noteq> ''0'')
         \<and> decimal_value k < 4294967295
      then Some (decimal_value k) else None)"

definition is_index_entry :: "string \<times> 'v \<Rightarrow> bool" where
  "is_index_entry kv = (array_index (fst kv) \<noteq> None)"

definition index_value :: "string \<times> 'v \<Rightarrow> nat" where
  "index_value kv = (case array_index (fst kv) of Some n \<Rightarrow> n | None \<Rightarrow> 0)"

definition index_below :: "nat \<Rightarrow> string \<times> 'v \<Rightarrow> bool" where
  "index_below n kv = (case array_index (fst kv) of Some m \<Rightarrow> m < n | None \<Rightarrow> False)"

text \<open>
  \<open>js_set k v obj\<close> defines the data property \<open>k\<close> of an ordinary object: a key that
  is there keeps its place and gets the value; a new array-index key goes among the
  array-index keys, by its number; any other new key goes to the end.
\<close>

definition js_set :: "string \<Rightarrow> 'v \<Rightarrow> (string \<times> 'v) list \<Rightarrow> (string \<times> 'v) list" where
  "js_set k v obj =
     (if k \<in> set (map fst obj) then map (\<lambda>kv. if fst kv = k then (k, v) else kv) obj
      else case array_index k of
             Some n \<Rightarrow> takeWhile (index_below n) obj @ (k, v) # dropWhile (index_below n) obj
           | None \<Rightarrow> obj @ [(k, v)])"

text \<open>
  An object literal with a spread, \<^verbatim>\<open>{ k: v, ...src }\<close>, defines \<open>k\<close> and then every
  own property of \<open>src\<close>, in the order of \<open>src\<close>: \<open>spread [(k, v)] src\<close>.
\<close>

definition spread :: "(string \<times> 'v) list \<Rightarrow> (string \<times> 'v) list \<Rightarrow> (string \<times> 'v) list" where
  "spread obj src = foldl (\<lambda>acc kv. js_set (fst kv) (snd kv) acc) obj src"

text \<open>
  The assignment \<^verbatim>\<open>obj[k] = v\<close> on an object created by \<^verbatim>\<open>{}\<close>, for a value \<open>v\<close>
  that is an object: for the key \<^verbatim>\<open>__proto__\<close> it runs the setter inherited from
  \<^verbatim>\<open>Object.prototype\<close>, which makes \<open>v\<close> the prototype and creates no own property; for
  every other key it defines the property.
\<close>

definition js_assign :: "string \<Rightarrow> 'v \<Rightarrow> (string \<times> 'v) list \<Rightarrow> (string \<times> 'v) list" where
  "js_assign k v obj = (if k = ''__proto__'' then obj else js_set k v obj)"

text \<open>
  The property list of a JavaScript object is well formed: no key twice, the
  array-index keys first, in ascending order.
\<close>

definition js_object :: "(string \<times> 'v) list \<Rightarrow> bool" where
  "js_object obj =
     (distinct (map fst obj)
      \<and> obj = filter is_index_entry obj @ filter (\<lambda>kv. \<not> is_index_entry kv) obj
      \<and> sorted_wrt (<) (map index_value (filter is_index_entry obj)))"

text \<open>
  \<^verbatim>\<open>typeof\<close> of a JSON value, and the own enumerable properties a spread or a rest
  pattern copies from it: those of an object, the elements of an array under their
  indices, the code units of a string under their indices, none of a number or a
  boolean. \<open>digits_of\<close> is the decimal numeral of an index.
\<close>

fun typeof_json :: "json \<Rightarrow> string" where
  "typeof_json JNull = ''object''"
| "typeof_json (JBool b) = ''boolean''"
| "typeof_json (JNum r) = ''number''"
| "typeof_json (JStr s) = ''string''"
| "typeof_json (JArr xs) = ''object''"
| "typeof_json (JObj kvs) = ''object''"

function digits_of :: "nat \<Rightarrow> string" where
  "digits_of n =
     (if n < 10 then [char_of (48 + n)] else digits_of (n div 10) @ [char_of (48 + n mod 10)])"
  by pat_completeness auto
termination
  by (relation "measure id") auto

declare digits_of.simps [simp del]

definition indexed :: "'v list \<Rightarrow> (string \<times> 'v) list" where
  "indexed xs = map (\<lambda>i. (digits_of i, xs ! i)) [0..<length xs]"

fun own_entries :: "json \<Rightarrow> document" where
  "own_entries (JObj kvs) = kvs"
| "own_entries (JArr xs) = indexed xs"
| "own_entries (JStr s) = indexed (map (\<lambda>c. JStr [c]) s)"
| "own_entries v = []"

subsection \<open>The adapter\<close>

text \<open>
  \<^verbatim>\<open>z.toJSONSchema\<close> is the external conversion function. It is a parameter of the
  model: given the schema and the options, it returns a JSON value or raises, and \<open>Inl\<close>
  carries the raised value as \<^verbatim>\<open>${error}\<close> renders it. The options the adapter passes
  are fixed but for the target. The target is the string the command line gave.
\<close>

record to_json_options =
  target :: string
  unrepresentable :: string
  reused :: string
  io :: string

type_synonym 'a converter = "'a \<Rightarrow> to_json_options \<Rightarrow> string + json"

definition adapter_options :: "string \<Rightarrow> to_json_options" where
  "adapter_options tgt =
     \<lparr>target = tgt, unrepresentable = ''any'', reused = ''ref'', io = ''output''\<rparr>"

datatype error = Error string | WriteError string

text \<open>
  \<^verbatim>\<open>convertToJsonSchema\<close>, with the three tests of the source: \<^verbatim>\<open>typeof\<close> is
  \<^verbatim>\<open>'object'\<close>, the value is not \<^verbatim>\<open>null\<close>, and \<^verbatim>\<open>title\<close> is not \<^verbatim>\<open>in\<close> it
  (\<^verbatim>\<open>title\<close> is no inherited property of an object or an array, so \<^verbatim>\<open>in\<close> looks at
  the own properties). Then \<^verbatim>\<open>{ title: name, ...jsonSchema }\<close> is built; any other value
  is returned as it is.
\<close>

definition convertToJsonSchema ::
  "'a converter \<Rightarrow> 'a \<Rightarrow> string \<Rightarrow> string \<Rightarrow> error + json" where
  "convertToJsonSchema toJSONSchema sch nm tgt =
     (case toJSONSchema sch (adapter_options tgt) of
        Inr jsonSchema \<Rightarrow>
          (if typeof_json jsonSchema = ''object'' \<and> jsonSchema \<noteq> JNull
              \<and> \<not> has_key ''title'' (own_entries jsonSchema)
           then Inr (JObj (spread [(''title'', JStr nm)] (own_entries jsonSchema)))
           else Inr jsonSchema)
      | Inl err \<Rightarrow>
          Inl (Error (''Failed to convert schema '' @ [CHR 0x22] @ nm @ [CHR 0x22] @ '': '' @ err)))"

definition getSchemaUrl :: "string \<Rightarrow> string" where
  "getSchemaUrl tgt =
     (if tgt = ''draft-7'' then ''http://json-schema.org/draft-07/schema#''
      else if tgt = ''draft-2020-12'' then ''https://json-schema.org/draft/2020-12/schema''
      else ''https://json-schema.org/draft/2020-12/schema'')"

subsection \<open>The writers\<close>

text \<open>
  What \<^verbatim>\<open>fs.writeFile\<close> receives: the text \<^verbatim>\<open>JSON.stringify\<close> gives for a document, with
  an indentation of two when \<^verbatim>\<open>format\<close> is set. The text is kept as the document and
  the layout. The effect of a writer is the list of the files it wrote, in order; whether
  a write succeeds is the environment's answer \<open>writable\<close> for the path. Console output
  is not modelled, so the flag \<^verbatim>\<open>verbose\<close> of the writers, which only prints, is left
  out.
\<close>

datatype file_content = Pretty json | Compact json

definition stringify :: "bool \<Rightarrow> json \<Rightarrow> file_content" where
  "stringify format doc = (if format then Pretty doc else Compact doc)"

record out_state =
  written :: "(string \<times> file_content) list"
  errorCount :: nat

record separate_state = out_state +
  successCount :: nat

record combined_state = out_state +
  defs :: document

text \<open>
  \<^verbatim>\<open>writeSeparateOutputs\<close>: the body of the loop, whose \<^verbatim>\<open>try\<close> covers the conversion,
  the test \<^verbatim>\<open>'$schema' in jsonSchema\<close> and the write, and the loop from zero counts. The
  operator \<^verbatim>\<open>in\<close> raises a TypeError for a value that is no object; the \<^verbatim>\<open>catch\<close>
  counts it like every other error.
\<close>

definition separate_step ::
  "'a converter \<Rightarrow> (string \<Rightarrow> bool) \<Rightarrow> string \<Rightarrow> string \<Rightarrow> bool
     \<Rightarrow> separate_state \<Rightarrow> 'a SchemaExport \<Rightarrow> separate_state" where
  "separate_step toJSONSchema writable outputDir tgt format st e =
     (case convertToJsonSchema toJSONSchema (schema e) (name e) tgt of
        Inr jsonSchema \<Rightarrow>
          (if \<not> (typeof_json jsonSchema = ''object'' \<and> jsonSchema \<noteq> JNull)
           then st\<lparr>errorCount := errorCount st + 1\<rparr>
           else
             (let schemaUrl = getSchemaUrl tgt;
                  finalSchema =
                    (if has_key ''$schema'' (own_entries jsonSchema) then jsonSchema
                     else JObj (spread [(''$schema'', JStr schemaUrl)] (own_entries jsonSchema)));
                  outputPath = path_join outputDir (name e @ ''.json'');
                  content = stringify format finalSchema
              in if writable outputPath
                 then st\<lparr>written := written st @ [(outputPath, content)],
                         successCount := successCount st + 1\<rparr>
                 else st\<lparr>errorCount := errorCount st + 1\<rparr>))
      | Inl err \<Rightarrow> st\<lparr>errorCount := errorCount st + 1\<rparr>)"

definition writeSeparateOutputs ::
  "'a converter \<Rightarrow> (string \<Rightarrow> bool) \<Rightarrow> 'a SchemaExport list \<Rightarrow> string \<Rightarrow> string
     \<Rightarrow> bool \<Rightarrow> separate_state" where
  "writeSeparateOutputs toJSONSchema writable schemaList outputDir tgt format =
     foldl (separate_step toJSONSchema writable outputDir tgt format)
       \<lparr>written = [], errorCount = 0, successCount = 0\<rparr> schemaList"

text \<open>
  \<^verbatim>\<open>writeCombinedOutput\<close>: the loop fills \<^verbatim>\<open>$defs\<close>, an object created by \<^verbatim>\<open>{}\<close>, by
  the assignment \<^verbatim>\<open>$defs[name] = schemaWithoutMeta\<close>. The rest pattern raises a
  TypeError for \<^verbatim>\<open>null\<close>, which the \<^verbatim>\<open>catch\<close> counts. The write comes after the loop,
  outside every \<^verbatim>\<open>try\<close>, so its failure is raised to the caller.
\<close>

definition combined_step ::
  "'a converter \<Rightarrow> string \<Rightarrow> combined_state \<Rightarrow> 'a SchemaExport \<Rightarrow> combined_state" where
  "combined_step toJSONSchema tgt st e =
     (case convertToJsonSchema toJSONSchema (schema e) (name e) tgt of
        Inr jsonSchema \<Rightarrow>
          (if jsonSchema = JNull then st\<lparr>errorCount := errorCount st + 1\<rparr>
           else
             (let schemaWithoutMeta = without_key ''$schema'' (own_entries jsonSchema)
              in st\<lparr>defs := js_assign (name e) (JObj schemaWithoutMeta) (defs st)\<rparr>))
      | Inl err \<Rightarrow> st\<lparr>errorCount := errorCount st + 1\<rparr>)"

definition combined_loop ::
  "'a converter \<Rightarrow> string \<Rightarrow> 'a SchemaExport list \<Rightarrow> combined_state" where
  "combined_loop toJSONSchema tgt schemaList =
     foldl (combined_step toJSONSchema tgt) \<lparr>written = [], errorCount = 0, defs = []\<rparr> schemaList"

definition writeCombinedOutput ::
  "'a converter \<Rightarrow> (string \<Rightarrow> bool) \<Rightarrow> 'a SchemaExport list \<Rightarrow> string \<Rightarrow> string
     \<Rightarrow> bool \<Rightarrow> error + combined_state" where
  "writeCombinedOutput toJSONSchema writable schemaList outputDir tgt format =
     (let st = combined_loop toJSONSchema tgt schemaList;
          schemaUrl = getSchemaUrl tgt;
          combined = JObj [(''$schema'', JStr schemaUrl), (''$defs'', JObj (defs st))];
          outputPath = path_join outputDir ''schemas.json'';
          content = stringify format combined
      in if writable outputPath
         then Inr (st\<lparr>written := written st @ [(outputPath, content)]\<rparr>)
         else Inl (WriteError outputPath))"

section \<open>Auxiliary notions for the proofs\<close>

text \<open>The two steps of \<open>normalizeSchemaName\<close>, each on its own.\<close>

definition strip_suffix :: "string \<Rightarrow> string" where
  "strip_suffix s =
     (if endsWith s ''Schema'' then slice_to_minus s 6
      else if endsWith s ''Zod'' then slice_to_minus s 3
      else s)"

definition z_prefixed :: "string \<Rightarrow> bool" where
  "z_prefixed s = (startsWith s ''z'' \<and> length s > 1 \<and> [s ! 1] = toUpperCase [s ! 1])"

definition strip_z_prefix :: "string \<Rightarrow> string" where
  "strip_z_prefix s = (if z_prefixed s then slice_from s 1 else s)"

text \<open>
  The aggregation as the specification words it: the exports of all files in encounter
  order, each with the path of its file, are taken one by one; the names already emitted
  are the names of the output so far. An export goes out under its own name when that
  name is not yet emitted, else under the file's base name, an underscore and its name
  when that is not yet emitted, else not at all.
\<close>

definition exports_in_order :: "'a SchemaFile list \<Rightarrow> (string \<times> 'a SchemaExport) list" where
  "exports_in_order scanResults =
     concat (map (\<lambda>f. map (\<lambda>e. (filePath f, e)) (schemas f)) scanResults)"

fun flatten_spec ::
  "'a SchemaExport list \<Rightarrow> (string \<times> 'a SchemaExport) list \<Rightarrow> 'a SchemaExport list" where
  "flatten_spec out [] = out"
| "flatten_spec out ((fp, e) # rest) =
     (if name e \<notin> set (map name out)
      then flatten_spec (out @ [\<lparr>name = name e, schema = schema e\<rparr>]) rest
      else if basename fp ''.ts'' @ ''_'' @ name e \<notin> set (map name out)
      then flatten_spec
             (out @ [\<lparr>name = basename fp ''.ts'' @ ''_'' @ name e, schema = schema e\<rparr>]) rest
      else flatten_spec out rest)"

text \<open>The invariant of the loops of \<open>flattenSchemas\<close>.\<close>

definition flatten_inv :: "'a flatten_state \<Rightarrow> bool" where
  "flatten_inv st =
     (seenNames st = set (map name (emitted st)) \<and> distinct (map name (emitted st)))"

section \<open>Evaluation and helper lemmas\<close>

lemma char_eq_char_of: "(c = char_of (n::nat)) = (take_bit 8 n = of_char c)"
  using char_of_eq_iff [of n c] by auto

lemmas string_eval = endsWith_def startsWith_def slice_to_minus_def slice_from_def
  toUpperCase_def upper_char_def is_A_Z_def char_of_eq_iff char_eq_char_of

lemmas flatten_eval = flattenSchemas_def flatten_file_def flatten_export_def basename_def
  last_segment_def Let_def

lemmas object_eval = js_set_def spread_def js_assign_def js_object_def array_index_def
  is_index_entry_def index_value_def index_below_def is_digit_def decimal_value_def

lemmas writer_eval = writeSeparateOutputs_def separate_step_def writeCombinedOutput_def
  combined_loop_def combined_step_def convertToJsonSchema_def adapter_options_def
  has_key_def without_key_def path_join_def stringify_def getSchemaUrl_def Let_def

subsection \<open>The normalizer\<close>

lemma normalize_steps: "normalizeSchemaName s = strip_z_prefix (strip_suffix s)"
  by (simp add: normalizeSchemaName_def strip_z_prefix_def strip_suffix_def z_prefixed_def
      Let_def)

lemma normalize_examples:
  "normalizeSchemaName ''UserSchema'' = ''User''"
  "normalizeSchemaName ''ProductZod'' = ''Product''"
  "normalizeSchemaName ''zAddress'' = ''Address''"
  "normalizeSchemaName ''Config'' = ''Config''"
  by (simp_all add: normalizeSchemaName_def string_eval)

lemma suffix_precedence:
  "endsWith s ''Schema'' \<Longrightarrow> strip_suffix s = slice_to_minus s 6"
  "\<not> endsWith s ''Schema'' \<Longrightarrow> endsWith s ''Zod'' \<Longrightarrow> strip_suffix s = slice_to_minus s 3"
  "\<not> endsWith s ''Schema'' \<Longrightarrow> \<not> endsWith s ''Zod'' \<Longrightarrow> strip_suffix s = s"
  by (simp_all add: strip_suffix_def)

lemma upper_char_z: "upper_char (CHR ''z'') \<noteq> CHR ''z''"
  by (simp add: upper_char_def char_of_eq_iff)

lemma z_prefixed_shape:
  "z_prefixed s \<longleftrightarrow> (\<exists>c r. s = CHR ''z'' # c # r \<and> upper_char c = c)"
proof (cases s)
  case Nil
  then show ?thesis by (simp add: z_prefixed_def startsWith_def)
next
  case (Cons a t)
  then show ?thesis
    by (cases t) (auto simp: z_prefixed_def startsWith_def toUpperCase_def)
qed

lemma strip_z_prefix_stable: "\<not> z_prefixed (strip_z_prefix s)"
proof (cases "z_prefixed s")
  case True
  then obtain c r where s: "s = CHR ''z'' # c # r" and c: "upper_char c = c"
    by (auto simp: z_prefixed_shape)
  have "strip_z_prefix s = c # r"
    using True s by (simp add: strip_z_prefix_def slice_from_def)
  moreover have "\<not> z_prefixed (c # r)"
    using c upper_char_z by (auto simp: z_prefixed_shape)
  ultimately show ?thesis by simp
next
  case False
  then show ?thesis by (simp add: strip_z_prefix_def)
qed

lemma length_strip_z_prefix: "length (strip_z_prefix s) \<le> length s"
  by (simp add: strip_z_prefix_def slice_from_def)

lemma strip_suffix_shorter:
  "endsWith s ''Schema'' \<or> endsWith s ''Zod'' \<Longrightarrow> length (strip_suffix s) < length s"
  by (auto simp: strip_suffix_def slice_to_minus_def endsWith_def)

subsection \<open>The classifier\<close>

lemma object_iff: "truthy v \<and> typeof v = ''object'' \<longleftrightarrow> (\<exists>ps. v = VObject ps)"
  by (cases v) simp_all

lemma has_property_map_of: "has_property k (VObject ps) \<longleftrightarrow> map_of ps k \<noteq> None"
  by (simp add: has_property_def map_of_eq_None_iff)

lemma marker_zod:
  "has_property ''_zod'' (VObject ps) \<and> truthy (get_property (VObject ps) ''_zod'')
     \<and> typeof (get_property (VObject ps) ''_zod'') = ''object''
     \<and> has_property ''def'' (get_property (VObject ps) ''_zod'')
   \<longleftrightarrow> (\<exists>zs. map_of ps ''_zod'' = Some (VObject zs) \<and> ''def'' \<in> fst ` set zs)"
proof (cases "map_of ps ''_zod''")
  case None
  then show ?thesis by (simp add: has_property_map_of)
next
  case (Some z)
  then show ?thesis
    using map_of_SomeD [of ps "''_zod''" z]
    by (cases z) (force simp: get_property_def has_property_def)+
qed

lemma marker_def:
  "has_property ''_def'' (VObject ps) \<and> truthy (get_property (VObject ps) ''_def'')
     \<and> typeof (get_property (VObject ps) ''_def'') = ''object''
   \<longleftrightarrow> (\<exists>ds. map_of ps ''_def'' = Some (VObject ds))"
proof (cases "map_of ps ''_def''")
  case None
  then show ?thesis by (simp add: has_property_map_of)
next
  case (Some d)
  then show ?thesis
    by (cases d) (simp_all add: has_property_map_of get_property_def)
qed

lemma isZodSchema_object:
  "isZodSchema (VObject ps) \<longleftrightarrow>
     (\<exists>zs. map_of ps ''_zod'' = Some (VObject zs) \<and> ''def'' \<in> fst ` set zs)
     \<or> (\<exists>ds. map_of ps ''_def'' = Some (VObject ds))"
proof -
  have "isZodSchema (VObject ps) \<longleftrightarrow>
      (has_property ''_zod'' (VObject ps) \<and> truthy (get_property (VObject ps) ''_zod'')
         \<and> typeof (get_property (VObject ps) ''_zod'') = ''object''
         \<and> has_property ''def'' (get_property (VObject ps) ''_zod''))
      \<or> (has_property ''_def'' (VObject ps) \<and> truthy (get_property (VObject ps) ''_def'')
         \<and> typeof (get_property (VObject ps) ''_def'') = ''object'')"
    unfolding isZodSchema_def by simp
  then show ?thesis unfolding marker_zod marker_def .
qed

lemma isZodSchema_not_object: "\<not> (\<exists>ps. v = VObject ps) \<Longrightarrow> \<not> isZodSchema v"
  using object_iff [of v] by (auto simp: isZodSchema_def)

subsection \<open>The aggregator\<close>

lemma flatten_inv_init: "flatten_inv \<lparr>emitted = [], seenNames = {}\<rparr>"
  by (simp add: flatten_inv_def)

lemma flatten_export_inv: "flatten_inv st \<Longrightarrow> flatten_inv (flatten_export fp st e)"
  by (auto simp: flatten_inv_def flatten_export_def Let_def)

lemma flatten_file_inv: "flatten_inv st \<Longrightarrow> flatten_inv (foldl (flatten_export fp) st es)"
  by (induction es arbitrary: st) (simp_all add: flatten_export_inv)

lemma flatten_files_inv: "flatten_inv st \<Longrightarrow> flatten_inv (foldl flatten_file st fs)"
  by (induction fs arbitrary: st) (simp_all add: flatten_file_def flatten_file_inv)

lemma flattenSchemas_distinct: "distinct (map name (flattenSchemas fs))"
  using flatten_files_inv [OF flatten_inv_init, of fs]
  by (simp add: flattenSchemas_def flatten_inv_def)

lemma flatten_export_spec:
  assumes "flatten_inv st"
  shows "flatten_spec (emitted st) ((fp, e) # rest)
         = flatten_spec (emitted (flatten_export fp st e)) rest"
  using assms by (auto simp: flatten_inv_def flatten_export_def Let_def)

lemma flatten_file_spec:
  "flatten_inv st \<Longrightarrow>
   flatten_spec (emitted st) (map (\<lambda>e. (fp, e)) es @ rest)
     = flatten_spec (emitted (foldl (flatten_export fp) st es)) rest"
proof (induction es arbitrary: st)
  case Nil
  then show ?case by simp
next
  case (Cons e es)
  have "flatten_spec (emitted st) (map (\<lambda>e. (fp, e)) (e # es) @ rest)
        = flatten_spec (emitted (flatten_export fp st e)) (map (\<lambda>e. (fp, e)) es @ rest)"
    using flatten_export_spec [OF Cons.prems] by simp
  also have "\<dots> = flatten_spec (emitted (foldl (flatten_export fp) (flatten_export fp st e) es)) rest"
    by (rule Cons.IH) (rule flatten_export_inv [OF Cons.prems])
  finally show ?case by simp
qed

lemma flatten_files_spec:
  "flatten_inv st \<Longrightarrow>
   flatten_spec (emitted st) (exports_in_order fs) = emitted (foldl flatten_file st fs)"
proof (induction fs arbitrary: st)
  case Nil
  then show ?case by (simp add: exports_in_order_def)
next
  case (Cons f fs)
  have inv: "flatten_inv (flatten_file st f)"
    unfolding flatten_file_def by (rule flatten_file_inv [OF Cons.prems])
  have "flatten_spec (emitted st) (exports_in_order (f # fs))
        = flatten_spec (emitted (flatten_file st f)) (exports_in_order fs)"
    using flatten_file_spec [OF Cons.prems, of "filePath f" "schemas f" "exports_in_order fs"]
    by (simp add: exports_in_order_def flatten_file_def)
  also have "\<dots> = emitted (foldl flatten_file (flatten_file st f) fs)"
    by (rule Cons.IH [OF inv])
  finally show ?case by simp
qed

lemma flatten_export_prefix: "prefix (emitted st) (emitted (flatten_export fp st e))"
  by (simp add: flatten_export_def Let_def)

lemma flatten_file_prefix: "prefix (emitted st) (emitted (foldl (flatten_export fp) st es))"
proof (induction es arbitrary: st)
  case Nil
  show ?case by simp
next
  case (Cons e es)
  from flatten_export_prefix [of st fp e] Cons.IH [of "flatten_export fp st e"]
  show ?case by (auto intro: prefix_order.trans)
qed

lemma flatten_files_prefix: "prefix (emitted st) (emitted (foldl flatten_file st fs))"
proof (induction fs arbitrary: st)
  case Nil
  show ?case by simp
next
  case (Cons f fs)
  from flatten_file_prefix [of st "filePath f" "schemas f"] Cons.IH [of "flatten_file st f"]
  show ?case by (auto simp: flatten_file_def intro: prefix_order.trans)
qed

lemma flatten_export_subseq:
  "subseq (map schema (emitted st)) xs \<Longrightarrow>
   subseq (map schema (emitted (flatten_export fp st e))) (xs @ [schema e])"
  by (auto simp: flatten_export_def Let_def subseq_append'
      intro: subseq_rev_drop_many list_emb_append_mono)

lemma flatten_file_subseq:
  "subseq (map schema (emitted st)) xs \<Longrightarrow>
   subseq (map schema (emitted (foldl (flatten_export fp) st es))) (xs @ map schema es)"
proof (induction es arbitrary: st xs)
  case Nil
  then show ?case by simp
next
  case (Cons e es)
  from Cons.IH [OF flatten_export_subseq [OF Cons.prems, of fp e]]
  show ?case by simp
qed

lemma flatten_files_subseq:
  "subseq (map schema (emitted st)) xs \<Longrightarrow>
   subseq (map schema (emitted (foldl flatten_file st fs)))
     (xs @ map (\<lambda>p. schema (snd p)) (exports_in_order fs))"
proof (induction fs arbitrary: st xs)
  case Nil
  then show ?case by (simp add: exports_in_order_def)
next
  case (Cons f fs)
  have "subseq (map schema (emitted (flatten_file st f))) (xs @ map schema (schemas f))"
    unfolding flatten_file_def by (rule flatten_file_subseq [OF Cons.prems])
  from Cons.IH [OF this] show ?case
    by (simp add: exports_in_order_def comp_def)
qed

subsection \<open>JavaScript objects\<close>

lemma array_index_named: "array_index ''title'' = None" "array_index ''$schema'' = None"
  by (simp_all add: array_index_def is_digit_def)

lemma set_insert_between:
  "set (takeWhile p obj @ x # dropWhile p obj) = insert x (set obj)"
proof -
  have "set (takeWhile p obj) \<union> set (dropWhile p obj) = set obj"
    by (metis set_append takeWhile_dropWhile_id)
  then show ?thesis by auto
qed

lemma keys_js_set: "set (map fst (js_set k v obj)) = insert k (set (map fst obj))"
proof (cases "k \<in> set (map fst obj)")
  case True
  then show ?thesis by (force simp: js_set_def)
next
  case False
  have "set (js_set k v obj) = insert (k, v) (set obj)"
  proof (cases "array_index k")
    case None
    with False show ?thesis by (simp add: js_set_def)
  next
    case (Some n)
    with False have "js_set k v obj
        = takeWhile (index_below n) obj @ (k, v) # dropWhile (index_below n) obj"
      by (simp add: js_set_def)
    then show ?thesis by (simp only: set_insert_between)
  qed
  then show ?thesis by simp
qed

lemma map_of_replace:
  "map_of (map (\<lambda>kv. if fst kv = k then (k, v) else kv) obj) k' =
     (if k' = k then (case map_of obj k of None \<Rightarrow> None | Some u \<Rightarrow> Some v)
      else map_of obj k')"
  by (induction obj) auto

lemma map_of_insert_mid:
  "k \<notin> set (map fst xs) \<Longrightarrow> map_of (xs @ (k, v) # ys) = (map_of (xs @ ys))(k \<mapsto> v)"
  by (induction xs) (auto simp: fun_upd_twist)

lemma map_of_js_set: "map_of (js_set k v obj) = (map_of obj)(k \<mapsto> v)"
proof (cases "k \<in> set (map fst obj)")
  case True
  then obtain u where "map_of obj k = Some u"
    by (metis map_of_eq_None_iff not_Some_eq set_map)
  with True show ?thesis by (intro ext) (simp add: js_set_def map_of_replace)
next
  case False
  then have none: "map_of obj k = None" by (simp add: map_of_eq_None_iff)
  show ?thesis
  proof (cases "array_index k")
    case None
    with False none show ?thesis
      by (intro ext) (simp add: js_set_def map_add_def split: option.splits)
  next
    case (Some n)
    have "k \<notin> set (map fst (takeWhile (index_below n) obj))"
      using False by (auto dest: set_takeWhileD)
    from map_of_insert_mid [OF this, of v "dropWhile (index_below n) obj"] False Some
    show ?thesis by (simp add: js_set_def)
  qed
qed

lemma takeWhile_none: "\<forall>x \<in> set xs. \<not> p x \<Longrightarrow> takeWhile p xs = []"
  by (cases xs) simp_all

lemma dropWhile_none: "\<forall>x \<in> set xs. \<not> p x \<Longrightarrow> dropWhile p xs = xs"
  by (cases xs) simp_all

lemma js_set_index_between:
  assumes "k \<notin> set (map fst (P @ N))" and "array_index k = Some n"
    and "\<forall>x \<in> set P. index_below n x" and "\<forall>x \<in> set N. \<not> index_below n x"
  shows "js_set k v (P @ N) = P @ (k, v) # N"
proof -
  have "takeWhile (index_below n) (P @ N) = P"
    using assms(3,4) by (simp add: takeWhile_append2 takeWhile_none)
  moreover have "dropWhile (index_below n) (P @ N) = N"
    using assms(3,4) by (simp add: dropWhile_append2 dropWhile_none)
  ultimately show ?thesis using assms(1,2) by (simp add: js_set_def)
qed

lemma spread_indices:
  assumes "\<forall>x \<in> set I. is_index_entry x"
    and "sorted_wrt (<) (map index_value I)"
    and "\<forall>x \<in> set P. is_index_entry x \<and> (\<forall>y \<in> set I. index_value x < index_value y)"
    and "\<forall>x \<in> set N. \<not> is_index_entry x"
    and "distinct (map fst I)"
    and "set (map fst I) \<inter> set (map fst (P @ N)) = {}"
  shows "spread (P @ N) I = P @ I @ N"
  using assms
proof (induction I arbitrary: P)
  case Nil
  then show ?case by (simp add: spread_def)
next
  case (Cons i I)
  obtain k v where i: "i = (k, v)" by (cases i)
  from Cons.prems(1) i obtain n where n: "array_index k = Some n"
    by (auto simp: is_index_entry_def)
  then have iv: "index_value i = n" by (simp add: index_value_def i)
  have below: "\<forall>x \<in> set P. index_below n x"
    using Cons.prems(3) iv by (auto simp: index_below_def is_index_entry_def index_value_def
        split: option.splits)
  have nobelow: "\<forall>x \<in> set N. \<not> index_below n x"
    using Cons.prems(4) by (auto simp: index_below_def is_index_entry_def split: option.splits)
  have fresh: "k \<notin> set (map fst (P @ N))"
    using Cons.prems(6) i by auto
  have step: "js_set k v (P @ N) = (P @ [i]) @ N"
    using js_set_index_between [OF fresh n below nobelow, of v] i by simp
  have "spread ((P @ [i]) @ N) I = (P @ [i]) @ I @ N"
  proof (rule Cons.IH)
    show "\<forall>x \<in> set I. is_index_entry x" using Cons.prems(1) by simp
    show "sorted_wrt (<) (map index_value I)" using Cons.prems(2) by simp
    show "\<forall>x \<in> set (P @ [i]). is_index_entry x \<and> (\<forall>y \<in> set I. index_value x < index_value y)"
      using Cons.prems(1,2,3) by auto
    show "\<forall>x \<in> set N. \<not> is_index_entry x" by (rule Cons.prems(4))
    show "distinct (map fst I)" using Cons.prems(5) by simp
    show "set (map fst I) \<inter> set (map fst ((P @ [i]) @ N)) = {}"
      using Cons.prems(5,6) by auto
  qed
  then show ?case using step i by (simp add: spread_def)
qed

lemma spread_named:
  assumes "\<forall>x \<in> set S. \<not> is_index_entry x"
    and "distinct (map fst S)"
    and "set (map fst S) \<inter> set (map fst base) = {}"
  shows "spread base S = base @ S"
  using assms
proof (induction S arbitrary: base)
  case Nil
  then show ?case by (simp add: spread_def)
next
  case (Cons s S)
  obtain k v where s: "s = (k, v)" by (cases s)
  have "array_index k = None" using Cons.prems(1) s by (simp add: is_index_entry_def)
  moreover have "k \<notin> set (map fst base)" using Cons.prems(3) s by auto
  ultimately have step: "js_set k v base = base @ [s]" by (simp add: js_set_def s)
  have "spread (base @ [s]) S = (base @ [s]) @ S"
  proof (rule Cons.IH)
    show "\<forall>x \<in> set S. \<not> is_index_entry x" using Cons.prems(1) by simp
    show "distinct (map fst S)" using Cons.prems(2) by simp
    show "set (map fst S) \<inter> set (map fst (base @ [s])) = {}"
      using Cons.prems(2,3) by auto
  qed
  then show ?case using step s by (simp add: spread_def)
qed

lemma spread_append: "spread base (xs @ ys) = spread (spread base xs) ys"
  by (simp add: spread_def)

lemma spread_onto_named:
  assumes "js_object doc" and "t \<notin> set (map fst doc)" and "array_index t = None"
  shows "spread [(t, x)] doc
         = filter is_index_entry doc @ (t, x) # filter (\<lambda>kv. \<not> is_index_entry kv) doc"
proof -
  define I where "I = filter is_index_entry doc"
  define S where "S = filter (\<lambda>kv. \<not> is_index_entry kv) doc"
  have doc: "doc = I @ S" and d: "distinct (map fst doc)"
    and srt: "sorted_wrt (<) (map index_value I)"
    using assms(1) by (simp_all add: js_object_def I_def S_def)
  have dI: "distinct (map fst I)" and dS: "distinct (map fst S)"
    and dis: "set (map fst I) \<inter> set (map fst S) = {}"
    using d doc by auto
  have tI: "t \<notin> set (map fst I)" and tS: "t \<notin> set (map fst S)"
    using assms(2) doc by auto
  have "spread ([] @ [(t, x)]) I = [] @ I @ [(t, x)]"
  proof (rule spread_indices)
    show "\<forall>x \<in> set I. is_index_entry x" by (simp add: I_def)
    show "sorted_wrt (<) (map index_value I)" by (rule srt)
    show "\<forall>x \<in> set []. is_index_entry x \<and> (\<forall>y \<in> set I. index_value x < index_value y)" by simp
    show "\<forall>y \<in> set [(t, x)]. \<not> is_index_entry y" using assms(3) by (simp add: is_index_entry_def)
    show "distinct (map fst I)" by (rule dI)
    show "set (map fst I) \<inter> set (map fst ([] @ [(t, x)])) = {}" using tI by simp
  qed
  then have one: "spread [(t, x)] I = I @ [(t, x)]" by simp
  have two: "spread (I @ [(t, x)]) S = (I @ [(t, x)]) @ S"
  proof (rule spread_named)
    show "\<forall>x \<in> set S. \<not> is_index_entry x" by (simp add: S_def)
    show "distinct (map fst S)" by (rule dS)
    show "set (map fst S) \<inter> set (map fst (I @ [(t, x)])) = {}" using dis tS by auto
  qed
  have "spread [(t, x)] doc = spread (spread [(t, x)] I) S"
    by (subst doc) (rule spread_append)
  with one two show ?thesis by (simp add: I_def S_def)
qed

lemma js_object_with_named:
  assumes "js_object doc" and "t \<notin> set (map fst doc)" and "array_index t = None"
  shows "js_object (filter is_index_entry doc @ (t, x) # filter (\<lambda>kv. \<not> is_index_entry kv) doc)"
proof -
  define I where "I = filter is_index_entry doc"
  define S where "S = filter (\<lambda>kv. \<not> is_index_entry kv) doc"
  have doc: "doc = I @ S" and d: "distinct (map fst doc)"
    and srt: "sorted_wrt (<) (map index_value I)"
    using assms(1) by (simp_all add: js_object_def I_def S_def)
  have fI: "filter is_index_entry I = I" "filter (\<lambda>kv. \<not> is_index_entry kv) I = []"
    and fS: "filter is_index_entry S = []" "filter (\<lambda>kv. \<not> is_index_entry kv) S = S"
    by (simp_all add: I_def S_def)
  have nt: "\<not> is_index_entry (t, x)" using assms(3) by (simp add: is_index_entry_def)
  have "distinct (map fst (I @ (t, x) # S))"
    using d assms(2) doc by auto
  then show ?thesis
    unfolding I_def [symmetric] S_def [symmetric]
    using fI fS nt srt by (simp add: js_object_def)
qed

lemma digits_are_digits: "list_all is_digit (digits_of n)"
proof (induction n rule: digits_of.induct)
  case (1 n)
  have d: "is_digit (char_of (48 + m))" if "m < 10" for m :: nat
    using that by (simp add: is_digit_def)
  show ?case
  proof (cases "n < 10")
    case True
    then show ?thesis by (subst digits_of.simps) (simp add: d)
  next
    case False
    with "1.IH" show ?thesis by (subst digits_of.simps) (simp add: d)
  qed
qed

lemma indexed_keys_digits: "k \<in> set (map fst (indexed xs)) \<Longrightarrow> list_all is_digit k"
  by (auto simp: indexed_def digits_are_digits)

lemma indexed_no_schema_key: "\<not> has_key ''$schema'' (indexed xs)"
  using indexed_keys_digits [of "''$schema''" xs] by (auto simp: has_key_def is_digit_def)

lemma has_key_spread: "has_key k (spread [(k, v)] src)"
proof -
  have "k \<in> set (map fst base) \<Longrightarrow> k \<in> set (map fst (spread base src))"
    for base :: document
  proof (induction src arbitrary: base)
    case Nil
    then show ?case by (simp add: spread_def)
  next
    case (Cons a src)
    have "k \<in> set (map fst (js_set (fst a) (snd a) base))"
      using Cons.prems by (simp only: keys_js_set) simp
    from Cons.IH [OF this] show ?case by (simp add: spread_def)
  qed
  from this [of "[(k, v)]"] show ?thesis by (simp add: has_key_def)
qed

lemma map_of_js_assign:
  "k \<noteq> ''__proto__'' \<Longrightarrow> map_of (js_assign k v obj) = (map_of obj)(k \<mapsto> v)"
  by (simp add: js_assign_def map_of_js_set)

lemma map_of_js_assign_other: "k' \<noteq> k \<Longrightarrow> map_of (js_assign k v obj) k' = map_of obj k'"
  by (simp add: js_assign_def map_of_js_set)

subsection \<open>The adapter and the writers\<close>

lemma convert_fails:
  assumes "c s (adapter_options t) = Inl msg"
  shows "convertToJsonSchema c s n t
         = Inl (Error (''Failed to convert schema '' @ [CHR 0x22] @ n @ [CHR 0x22] @ '': '' @ msg))"
  using assms by (simp add: convertToJsonSchema_def)

lemma convert_object:
  assumes "c s (adapter_options t) = Inr (JObj doc)"
  shows "convertToJsonSchema c s n t
         = Inr (JObj (if has_key ''title'' doc then doc else spread [(''title'', JStr n)] doc))"
  using assms by (simp add: convertToJsonSchema_def)

lemma separate_step_written_mono:
  "set (written st) \<subseteq> set (written (separate_step c w d t f st e))"
  by (auto simp: separate_step_def Let_def split: sum.splits)

lemma separate_loop_written_mono:
  "set (written st) \<subseteq> set (written (foldl (separate_step c w d t f) st es))"
proof (induction es arbitrary: st)
  case Nil
  show ?case by simp
next
  case (Cons e es)
  from separate_step_written_mono [of st c w d t f e] Cons.IH [of "separate_step c w d t f st e"]
  show ?case by auto
qed

lemma separate_step_writes:
  assumes "convertToJsonSchema c (schema e) (name e) t = Inr (JObj js)"
    and "w (path_join d (name e @ ''.json''))"
  shows "written (separate_step c w d t f st e) =
           written st @ [(path_join d (name e @ ''.json''),
             stringify f (JObj (if has_key ''$schema'' js then js
                                else spread [(''$schema'', JStr (getSchemaUrl t))] js)))]"
  using assms by (simp add: separate_step_def Let_def)

lemma separate_loop_writes:
  assumes "e \<in> set es"
    and "convertToJsonSchema c (schema e) (name e) t = Inr (JObj js)"
    and "w (path_join d (name e @ ''.json''))"
  shows "(path_join d (name e @ ''.json''),
          stringify f (JObj (if has_key ''$schema'' js then js
                             else spread [(''$schema'', JStr (getSchemaUrl t))] js)))
         \<in> set (written (foldl (separate_step c w d t f) st es))"
  using assms(1)
proof (induction es arbitrary: st)
  case Nil
  then show ?case by simp
next
  case (Cons x es)
  show ?case
  proof (cases "x = e")
    case True
    have "(path_join d (name e @ ''.json''),
          stringify f (JObj (if has_key ''$schema'' js then js
                             else spread [(''$schema'', JStr (getSchemaUrl t))] js)))
          \<in> set (written (separate_step c w d t f st e))"
      using assms(2,3) by (simp add: separate_step_writes)
    with separate_loop_written_mono [of "separate_step c w d t f st e" c w d t f es] True
    show ?thesis by auto
  next
    case False
    with Cons.prems have "e \<in> set es" by simp
    from Cons.IH [OF this] show ?thesis by simp
  qed
qed

lemma final_schema_keyed:
  assumes "typeof_json v = ''object''" and "v \<noteq> JNull"
  shows "\<exists>doc. (if has_key ''$schema'' (own_entries v) then v
                else JObj (spread [(''$schema'', JStr u)] (own_entries v))) = JObj doc
               \<and> has_key ''$schema'' doc"
proof (cases v)
  case (JObj kvs)
  then show ?thesis by (simp add: has_key_spread)
next
  case (JArr xs)
  then show ?thesis by (simp add: has_key_spread indexed_no_schema_key)
qed (use assms in simp_all)

lemma separate_step_keyed:
  assumes "\<forall>pc \<in> set (written st). \<exists>doc. snd pc = stringify f (JObj doc) \<and> has_key ''$schema'' doc"
  shows "\<forall>pc \<in> set (written (separate_step c w d t f st e)).
           \<exists>doc. snd pc = stringify f (JObj doc) \<and> has_key ''$schema'' doc"
proof (cases "convertToJsonSchema c (schema e) (name e) t")
  case (Inl err)
  with assms show ?thesis by (simp add: separate_step_def)
next
  case (Inr v)
  show ?thesis
  proof (cases "typeof_json v = ''object'' \<and> v \<noteq> JNull \<and> w (path_join d (name e @ ''.json''))")
    case False
    with Inr assms show ?thesis by (auto simp: separate_step_def Let_def)
  next
    case True
    from final_schema_keyed [of v "getSchemaUrl t"] True
    obtain doc where doc: "(if has_key ''$schema'' (own_entries v) then v
                else JObj (spread [(''$schema'', JStr (getSchemaUrl t))] (own_entries v))) = JObj doc"
      and key: "has_key ''$schema'' doc"
      by blast
    have "written (separate_step c w d t f st e)
          = written st @ [(path_join d (name e @ ''.json''), stringify f (JObj doc))]"
      using Inr True doc by (simp add: separate_step_def Let_def)
    with assms key show ?thesis by auto
  qed
qed

lemma separate_loop_keyed:
  "\<forall>pc \<in> set (written st). \<exists>doc. snd pc = stringify f (JObj doc) \<and> has_key ''$schema'' doc \<Longrightarrow>
   \<forall>pc \<in> set (written (foldl (separate_step c w d t f) st es)).
      \<exists>doc. snd pc = stringify f (JObj doc) \<and> has_key ''$schema'' doc"
proof (induction es arbitrary: st)
  case Nil
  then show ?case by simp
next
  case (Cons e es)
  from Cons.IH [OF separate_step_keyed [OF Cons.prems, of c w d t e]]
  show ?case by simp
qed

lemma combined_step_defs_other:
  "k \<noteq> name e \<Longrightarrow> map_of (defs (combined_step c t st e)) k = map_of (defs st) k"
  by (auto simp: combined_step_def Let_def map_of_js_assign_other split: sum.splits)

lemma combined_loop_defs_other:
  "k \<notin> name ` set es \<Longrightarrow>
   map_of (defs (foldl (combined_step c t) st es)) k = map_of (defs st) k"
  by (induction es arbitrary: st) (simp_all add: combined_step_defs_other)

lemma combined_loop_entry:
  assumes "distinct (map name es)" and "e \<in> set es" and "name e \<noteq> ''__proto__''"
    and "convertToJsonSchema c (schema e) (name e) t = Inr (JObj js)"
  shows "map_of (defs (foldl (combined_step c t) st es)) (name e)
         = Some (JObj (without_key ''$schema'' js))"
  using assms(1,2)
proof (induction es arbitrary: st)
  case Nil
  then show ?case by simp
next
  case (Cons x es)
  show ?case
  proof (cases "x = e")
    case True
    with Cons.prems have "name e \<notin> name ` set es" by auto
    then have "map_of (defs (foldl (combined_step c t) (combined_step c t st e) es)) (name e)
               = map_of (defs (combined_step c t st e)) (name e)"
      by (rule combined_loop_defs_other)
    also have "\<dots> = Some (JObj (without_key ''$schema'' js))"
      by (simp add: combined_step_def assms(3,4) Let_def map_of_js_assign)
    finally show ?thesis using True by simp
  next
    case False
    with Cons.prems have "distinct (map name es)" "e \<in> set es" by auto
    from Cons.IH [OF this] show ?thesis by simp
  qed
qed

lemma combined_loop_all_fail:
  assumes "\<forall>e \<in> set es. \<exists>err. convertToJsonSchema c (schema e) (name e) t = Inl err"
  shows "foldl (combined_step c t) st es = st\<lparr>errorCount := errorCount st + length es\<rparr>"
  using assms
proof (induction es arbitrary: st)
  case Nil
  show ?case by simp
next
  case (Cons x es)
  from Cons.prems obtain err where "convertToJsonSchema c (schema x) (name x) t = Inl err"
    by auto
  then have "combined_step c t st x = st\<lparr>errorCount := errorCount st + 1\<rparr>"
    by (simp add: combined_step_def)
  moreover from Cons.prems
  have "\<forall>e \<in> set es. \<exists>err. convertToJsonSchema c (schema e) (name e) t = Inl err" by simp
  ultimately show ?case using Cons.IH [of "st\<lparr>errorCount := errorCount st + 1\<rparr>"] by simp
qed

lemma combined_loop_written: "written (foldl (combined_step c t) st es) = written st"
  by (induction es arbitrary: st) (auto simp: combined_step_def Let_def split: sum.splits)

text \<open>
  For every schema name but \<^verbatim>\<open>__proto__\<close>, combined mode stores the converted document
  without its \<open>$schema\<close> key under the name.
\<close>

lemma combined_entry_general:
  assumes "distinct (map name es)" and "e \<in> set es" and "name e \<noteq> ''__proto__''"
    and "convertToJsonSchema c (schema e) (name e) t = Inr (JObj js)"
  shows "map_of (defs (combined_loop c t es)) (name e) = Some (JObj (without_key ''$schema'' js))"
  unfolding combined_loop_def by (rule combined_loop_entry [OF assms])

section \<open>The claims\<close>

text \<open>
  C1. For every sequence of scan results, \<open>flattenSchemas\<close> computes what the
  specification describes (\<open>flatten_spec\<close> over the exports in encounter order: an
  export goes out under its own name when that name is not yet emitted, else under
  \<open>{fileBaseName}_{name}\<close> when that is not yet emitted, else it is dropped). The names of
  the output are pairwise distinct. The output keeps the encounter order: what was
  emitted for the first files stays, in place, as a prefix when more files follow, and
  the schemas of the output are a subsequence of the schemas of the input.
\<close>

theorem flattenSchemas_dedup:
  "flattenSchemas fs = flatten_spec [] (exports_in_order fs)
   \<and> distinct (map name (flattenSchemas fs))
   \<and> prefix (flattenSchemas fs) (flattenSchemas (fs @ gs))
   \<and> subseq (map schema (flattenSchemas fs)) (map (\<lambda>p. schema (snd p)) (exports_in_order fs))"
proof -
  have a: "flattenSchemas fs = flatten_spec [] (exports_in_order fs)"
    using flatten_files_spec [OF flatten_inv_init, of fs] by (simp add: flattenSchemas_def)
  have c: "prefix (flattenSchemas fs) (flattenSchemas (fs @ gs))"
    by (simp add: flattenSchemas_def flatten_files_prefix)
  have d: "subseq (map schema (flattenSchemas fs))
             (map (\<lambda>p. schema (snd p)) (exports_in_order fs))"
    using flatten_files_subseq [of "\<lparr>emitted = [], seenNames = {}\<rparr>" "[]" fs]
    by (simp add: flattenSchemas_def)
  from a flattenSchemas_distinct [of fs] c d show ?thesis by blast
qed

text \<open>
  Three files export \<open>User\<close>; the second and the third have the base name \<open>b\<close>. The
  second goes out as \<open>b_User\<close>, the third is dropped.
\<close>

theorem flattenSchemas_dedup_witness:
  "flattenSchemas
     [\<lparr>filePath = ''/p/a.ts'', schemas = [\<lparr>name = ''User'', schema = (1::nat)\<rparr>]\<rparr>,
      \<lparr>filePath = ''/p/b.ts'', schemas = [\<lparr>name = ''User'', schema = 2\<rparr>]\<rparr>,
      \<lparr>filePath = ''/q/b.ts'', schemas = [\<lparr>name = ''User'', schema = 3\<rparr>]\<rparr>]
   = [\<lparr>name = ''User'', schema = 1\<rparr>, \<lparr>name = ''b_User'', schema = 2\<rparr>]
   \<and> distinct (map name (flattenSchemas
     [\<lparr>filePath = ''/p/a.ts'', schemas = [\<lparr>name = ''User'', schema = (1::nat)\<rparr>]\<rparr>,
      \<lparr>filePath = ''/p/b.ts'', schemas = [\<lparr>name = ''User'', schema = 2\<rparr>]\<rparr>,
      \<lparr>filePath = ''/q/b.ts'', schemas = [\<lparr>name = ''User'', schema = 3\<rparr>]\<rparr>]))"
proof -
  let ?fs = "[\<lparr>filePath = ''/p/a.ts'', schemas = [\<lparr>name = ''User'', schema = (1::nat)\<rparr>]\<rparr>,
      \<lparr>filePath = ''/p/b.ts'', schemas = [\<lparr>name = ''User'', schema = 2\<rparr>]\<rparr>,
      \<lparr>filePath = ''/q/b.ts'', schemas = [\<lparr>name = ''User'', schema = 3\<rparr>]\<rparr>]"
  have "flattenSchemas ?fs = [\<lparr>name = ''User'', schema = 1\<rparr>, \<lparr>name = ''b_User'', schema = 2\<rparr>]"
    by (simp add: flatten_eval string_eval)
  moreover from flattenSchemas_dedup [of ?fs "[]"]
  have "distinct (map name (flattenSchemas ?fs))" by blast
  ultimately show ?thesis by blast
qed

text \<open>
  C2. The claim as stated fails where the external document has an array-index key:
  JavaScript lists such keys first, so \<open>title\<close> comes after them. The external
  function returns \<open>{"1": "a", "type": "string"}\<close>, which has no \<open>title\<close>; the
  result has \<open>title\<close> as its second key.
\<close>

theorem convert_title_not_first:
  "convertToJsonSchema
     (\<lambda>s opts. Inr (JObj [(''1'', JStr ''a''), (''type'', JStr ''string'')]))
     () ''User'' ''draft-7''
   = Inr (JObj [(''1'', JStr ''a''), (''title'', JStr ''User''), (''type'', JStr ''string'')])"
  by (simp add: convertToJsonSchema_def has_key_def object_eval)

text \<open>
  C2, amended. When the external conversion function returns a document (a JavaScript
  object) for the schema, \<open>convertToJsonSchema\<close> returns a document. If the external
  one has no \<open>title\<close> key, it is the external one with \<open>title\<close> mapped to the name put
  after its array-index keys and before all its other keys; so \<open>title\<close> is the first
  key when the external document has no array-index key. If the external one has a
  \<open>title\<close> key, it is the external one itself. In both cases every key but \<open>title\<close>
  is there with its value as in the external document, and in the same order.
\<close>

theorem convert_title:
  assumes "toJSONSchema s (adapter_options t) = Inr (JObj doc)"
    and "js_object doc"
  shows "\<exists>r. convertToJsonSchema toJSONSchema s n t = Inr (JObj r)
           \<and> (\<not> has_key ''title'' doc \<longrightarrow>
                r = filter is_index_entry doc @ (''title'', JStr n)
                      # filter (\<lambda>kv. \<not> is_index_entry kv) doc)
           \<and> (\<not> has_key ''title'' doc \<and> filter is_index_entry doc = [] \<longrightarrow>
                r = (''title'', JStr n) # doc)
           \<and> (has_key ''title'' doc \<longrightarrow> r = doc)
           \<and> without_key ''title'' r = without_key ''title'' doc
           \<and> (\<forall>k. k \<noteq> ''title'' \<longrightarrow> map_of r k = map_of doc k)
           \<and> js_object r"
proof (cases "has_key ''title'' doc")
  case True
  with assms show ?thesis by (simp add: convert_object)
next
  case False
  define I where "I = filter is_index_entry doc"
  define S where "S = filter (\<lambda>kv. \<not> is_index_entry kv) doc"
  define r where "r = I @ (''title'', JStr n) # S"
  have doc: "doc = I @ S"
    using assms(2) by (simp add: js_object_def I_def S_def)
  have fresh: "''title'' \<notin> set (map fst doc)"
    using False by (simp add: has_key_def)
  then have freshI: "''title'' \<notin> set (map fst I)" and freshS: "''title'' \<notin> set (map fst S)"
    unfolding I_def S_def by auto
  have "spread [(''title'', JStr n)] doc = r"
    unfolding r_def I_def S_def
    by (rule spread_onto_named [OF assms(2) fresh array_index_named(1)])
  with assms(1) False have conv: "convertToJsonSchema toJSONSchema s n t = Inr (JObj r)"
    by (simp add: convert_object)
  have first: "r = (''title'', JStr n) # doc" if "filter is_index_entry doc = []"
  proof -
    from that have "I = []" by (simp add: I_def)
    moreover from this doc have "doc = S" by simp
    ultimately show ?thesis by (simp add: r_def)
  qed
  have "without_key ''title'' r = without_key ''title'' I @ without_key ''title'' S"
    by (simp add: r_def without_key_def)
  also have "\<dots> = without_key ''title'' (I @ S)"
    by (simp add: without_key_def)
  finally have rest: "without_key ''title'' r = without_key ''title'' doc"
    using doc by simp
  have "map_of r = (map_of (I @ S))(''title'' \<mapsto> JStr n)"
    unfolding r_def by (rule map_of_insert_mid [OF freshI])
  then have vals: "\<forall>k. k \<noteq> ''title'' \<longrightarrow> map_of r k = map_of doc k"
    using doc by simp
  have wf: "js_object r"
    unfolding r_def I_def S_def
    by (rule js_object_with_named [OF assms(2) fresh array_index_named(1)])
  from conv first rest vals wf False show ?thesis
    unfolding r_def I_def S_def by blast
qed

text \<open>
  Three external documents: one without \<open>title\<close> and without array-index keys, one
  with a \<open>title\<close> of its own, one with the array-index key \<open>1\<close>.
\<close>

theorem convert_title_witness:
  "convertToJsonSchema
     (\<lambda>s opts. if s = 0 then Inr (JObj [(''type'', JStr ''string'')])
                else if s = 1 then Inr (JObj [(''type'', JStr ''object''), (''title'', JStr ''Mine'')])
                else Inr (JObj [(''1'', JStr ''a''), (''type'', JStr ''string'')]))
     (0::nat) ''User'' ''draft-7''
   = Inr (JObj [(''title'', JStr ''User''), (''type'', JStr ''string'')])
   \<and> convertToJsonSchema
     (\<lambda>s opts. if s = 0 then Inr (JObj [(''type'', JStr ''string'')])
                else if s = 1 then Inr (JObj [(''type'', JStr ''object''), (''title'', JStr ''Mine'')])
                else Inr (JObj [(''1'', JStr ''a''), (''type'', JStr ''string'')]))
     (1::nat) ''User'' ''draft-7''
   = Inr (JObj [(''type'', JStr ''object''), (''title'', JStr ''Mine'')])
   \<and> convertToJsonSchema
     (\<lambda>s opts. if s = 0 then Inr (JObj [(''type'', JStr ''string'')])
                else if s = 1 then Inr (JObj [(''type'', JStr ''object''), (''title'', JStr ''Mine'')])
                else Inr (JObj [(''1'', JStr ''a''), (''type'', JStr ''string'')]))
     (2::nat) ''User'' ''draft-7''
   = Inr (JObj [(''1'', JStr ''a''), (''title'', JStr ''User''), (''type'', JStr ''string'')])"
proof -
  let ?c = "\<lambda>(s::nat) (opts::to_json_options).
     if s = 0 then Inr (JObj [(''type'', JStr ''string'')])
     else if s = 1 then Inr (JObj [(''type'', JStr ''object''), (''title'', JStr ''Mine'')])
     else (Inr (JObj [(''1'', JStr ''a''), (''type'', JStr ''string'')]) :: string + json)"
  let ?d0 = "[(''type'', JStr ''string'')]"
  let ?d1 = "[(''type'', JStr ''object''), (''title'', JStr ''Mine'')]"
  let ?d2 = "[(''1'', JStr ''a''), (''type'', JStr ''string'')]"
  have h0: "?c 0 (adapter_options ''draft-7'') = Inr (JObj ?d0)"
    and h1: "?c 1 (adapter_options ''draft-7'') = Inr (JObj ?d1)"
    and h2: "?c 2 (adapter_options ''draft-7'') = Inr (JObj ?d2)"
    by simp_all
  have w0: "js_object ?d0" and w1: "js_object ?d1" and w2: "js_object ?d2"
    by (simp_all add: object_eval)
  from convert_title [where toJSONSchema = ?c and n = "''User''", OF h0 w0]
  have a: "convertToJsonSchema ?c 0 ''User'' ''draft-7''
        = Inr (JObj [(''title'', JStr ''User''), (''type'', JStr ''string'')])"
    by (auto simp: has_key_def object_eval)
  from convert_title [where toJSONSchema = ?c and n = "''User''", OF h1 w1]
  have b: "convertToJsonSchema ?c 1 ''User'' ''draft-7'' = Inr (JObj ?d1)"
    by (auto simp: has_key_def)
  from convert_title [where toJSONSchema = ?c and n = "''User''", OF h2 w2]
  have c: "convertToJsonSchema ?c 2 ''User'' ''draft-7''
        = Inr (JObj [(''1'', JStr ''a''), (''title'', JStr ''User''), (''type'', JStr ''string'')])"
    by (auto simp: has_key_def object_eval)
  from a b c show ?thesis by blast
qed

text \<open>
  C3. \<open>isZodSchema\<close> holds of a value exactly when the value is an object (not null)
  that has a property \<open>_zod\<close> holding an object with a property \<open>def\<close>, or a property
  \<open>_def\<close> holding an object. So it holds of \<open>{_zod: {def: d}}\<close> and of \<open>{_def: {...}}\<close>,
  and fails for null, undefined, every primitive, and an object with neither \<open>_zod\<close>
  nor \<open>_def\<close>. (A function is no object for \<^verbatim>\<open>typeof\<close>, so it fails for functions
  too.)
\<close>

theorem isZodSchema_iff:
  "(isZodSchema v \<longleftrightarrow>
      (\<exists>ps. v = VObject ps
         \<and> ((\<exists>zs. map_of ps ''_zod'' = Some (VObject zs) \<and> ''def'' \<in> fst ` set zs)
            \<or> (\<exists>ds. map_of ps ''_def'' = Some (VObject ds)))))
   \<and> isZodSchema (VObject [(''_zod'', VObject [(''def'', d)])])
   \<and> isZodSchema (VObject [(''_def'', VObject ds)])
   \<and> \<not> isZodSchema VNull \<and> \<not> isZodSchema VUndefined
   \<and> \<not> isZodSchema (VBoolean b) \<and> \<not> isZodSchema (VNumber r) \<and> \<not> isZodSchema VNaN
   \<and> \<not> isZodSchema (VInfinity b) \<and> \<not> isZodSchema (VString s) \<and> \<not> isZodSchema (VBigInt i)
   \<and> \<not> isZodSchema (VSymbol s) \<and> \<not> isZodSchema (VFunction fs)
   \<and> (''_zod'' \<notin> fst ` set qs \<and> ''_def'' \<notin> fst ` set qs \<longrightarrow> \<not> isZodSchema (VObject qs))"
proof -
  have main: "isZodSchema v \<longleftrightarrow>
      (\<exists>ps. v = VObject ps
         \<and> ((\<exists>zs. map_of ps ''_zod'' = Some (VObject zs) \<and> ''def'' \<in> fst ` set zs)
            \<or> (\<exists>ds. map_of ps ''_def'' = Some (VObject ds))))"
  proof (cases "\<exists>ps. v = VObject ps")
    case True
    then show ?thesis using isZodSchema_object by auto
  next
    case False
    then show ?thesis using isZodSchema_not_object [of v] by auto
  qed
  have plain: "''_zod'' \<notin> fst ` set qs \<and> ''_def'' \<notin> fst ` set qs \<longrightarrow> \<not> isZodSchema (VObject qs)"
    by (auto simp: isZodSchema_object map_of_eq_None_iff [symmetric] simp del: map_of_eq_None_iff)
  have shaped: "isZodSchema (VObject [(''_zod'', VObject [(''def'', d)])])"
       "isZodSchema (VObject [(''_def'', VObject ds)])"
    by (simp_all add: isZodSchema_object)
  have prims: "\<not> isZodSchema VNull" "\<not> isZodSchema VUndefined" "\<not> isZodSchema (VBoolean b)"
      "\<not> isZodSchema (VNumber r)" "\<not> isZodSchema VNaN" "\<not> isZodSchema (VInfinity b)"
      "\<not> isZodSchema (VString s)" "\<not> isZodSchema (VBigInt i)" "\<not> isZodSchema (VSymbol s)"
      "\<not> isZodSchema (VFunction fs)"
    by (simp_all add: isZodSchema_def)
  from main plain shaped prims show ?thesis by blast
qed

theorem isZodSchema_iff_witness:
  "isZodSchema (VObject [(''shape'', VNull), (''_zod'', VObject [(''def'', VUndefined)])])
   \<and> \<not> isZodSchema (VObject [(''_zod'', VObject [(''x'', VNull)]), (''_def'', VString ''a'')])
   \<and> \<not> isZodSchema (VObject [(''shape'', VObject [])])"
  using isZodSchema_iff [of "VObject [(''shape'', VNull), (''_zod'', VObject [(''def'', VUndefined)])]"]
    isZodSchema_iff [of "VObject [(''_zod'', VObject [(''x'', VNull)]), (''_def'', VString ''a'')]"]
    isZodSchema_iff [where qs = "[(''shape'', VObject [])]"]
  by simp

text \<open>
  C4. The normalizer drops a leading \<open>z\<close> also before a character that is no letter:
  the test compares the character with its upper-case form, which every character
  without one passes. \<open>z_idSchema\<close> becomes \<open>_id\<close>, although \<open>_\<close> is not in
  \<^verbatim>\<open>[A-Z]\<close> and the pattern \<^verbatim>\<open>/^z[A-Z]/\<close> of \<open>isLikelySchemaName\<close> does not match
  \<open>z_id\<close>.
\<close>

theorem normalize_drops_z_before_nonletter:
  "normalizeSchemaName ''z_idSchema'' = ''_id''
   \<and> \<not> is_A_Z (CHR ''_'') \<and> \<not> matches_z_upper ''z_id''"
  by (simp add: normalizeSchemaName_def matches_z_upper_def string_eval)

text \<open>
  C5. The claim as stated fails: only one suffix is stripped in a pass, so
  \<open>UserSchemaSchema\<close> gives \<open>UserSchema\<close> and then \<open>User\<close>.
\<close>

theorem normalize_not_idempotent:
  "normalizeSchemaName (normalizeSchemaName ''UserSchemaSchema'')
   \<noteq> normalizeSchemaName ''UserSchemaSchema''"
  by (simp add: normalizeSchemaName_def string_eval)

text \<open>
  C5, amended. A second pass changes nothing exactly when the result of the first pass
  does not end in \<open>Schema\<close> or \<open>Zod\<close>.
\<close>

theorem normalize_twice_iff:
  "normalizeSchemaName (normalizeSchemaName x) = normalizeSchemaName x
   \<longleftrightarrow> \<not> endsWith (normalizeSchemaName x) ''Schema'' \<and> \<not> endsWith (normalizeSchemaName x) ''Zod''"
proof -
  define y where "y = normalizeSchemaName x"
  have stable: "\<not> z_prefixed y"
    unfolding y_def normalize_steps by (rule strip_z_prefix_stable)
  show ?thesis
  proof (cases "endsWith y ''Schema'' \<or> endsWith y ''Zod''")
    case True
    then have "length (strip_suffix y) < length y" by (rule strip_suffix_shorter)
    with length_strip_z_prefix [of "strip_suffix y"]
    have "length (normalizeSchemaName y) < length y"
      by (simp add: normalize_steps)
    then have "normalizeSchemaName y \<noteq> y" by auto
    with True show ?thesis unfolding y_def by auto
  next
    case False
    then have "strip_suffix y = y" by (simp add: strip_suffix_def)
    then have "normalizeSchemaName y = y"
      using stable by (simp add: normalize_steps strip_z_prefix_def)
    with False show ?thesis unfolding y_def by auto
  qed
qed

theorem normalize_twice_iff_witness:
  "normalizeSchemaName (normalizeSchemaName ''zUserSchema'') = normalizeSchemaName ''zUserSchema''
   \<and> normalizeSchemaName ''zUserSchema'' = ''User''"
proof -
  have v: "normalizeSchemaName ''zUserSchema'' = ''User''"
    by (simp add: normalizeSchemaName_def string_eval)
  have "\<not> endsWith ''User'' ''Schema'' \<and> \<not> endsWith ''User'' ''Zod''"
    by (simp add: endsWith_def)
  with normalize_twice_iff [of "''zUserSchema''"] v show ?thesis by simp
qed

text \<open>
  C6. Combined mode stores no entry for a schema named \<open>__proto__\<close>: the assignment
  \<^verbatim>\<open>$defs[name] = schemaWithoutMeta\<close> on the plain object \<^verbatim>\<open>$defs\<close> sets its prototype
  and creates no property. An export \<open>__proto__Schema\<close> gets that name; its conversion
  succeeds, separate mode writes \<open>__proto__.json\<close> for it, and combined mode writes
  \<open>schemas.json\<close> with an empty \<open>$defs\<close> and counts no error.
\<close>

theorem combined_loses_proto_entry:
  "normalizeSchemaName ''__proto__Schema'' = ''__proto__''
   \<and> convertToJsonSchema (\<lambda>s opts. Inr (JObj [(''type'', JStr ''string'')]))
        () ''__proto__'' ''draft-7''
     = Inr (JObj [(''title'', JStr ''__proto__''), (''type'', JStr ''string'')])
   \<and> writeCombinedOutput (\<lambda>s opts. Inr (JObj [(''type'', JStr ''string'')])) (\<lambda>p. True)
        [\<lparr>name = ''__proto__'', schema = ()\<rparr>] ''/out'' ''draft-7'' True
     = Inr \<lparr>written = [(''/out/schemas.json'',
              Pretty (JObj [(''$schema'', JStr ''http://json-schema.org/draft-07/schema#''),
                            (''$defs'', JObj [])]))],
            errorCount = 0, defs = []\<rparr>
   \<and> writeSeparateOutputs (\<lambda>s opts. Inr (JObj [(''type'', JStr ''string'')])) (\<lambda>p. True)
        [\<lparr>name = ''__proto__'', schema = ()\<rparr>] ''/out'' ''draft-7'' True
     = \<lparr>written = [(''/out/__proto__.json'',
            Pretty (JObj [(''$schema'', JStr ''http://json-schema.org/draft-07/schema#''),
                          (''title'', JStr ''__proto__''), (''type'', JStr ''string'')]))],
         errorCount = 0, successCount = 1\<rparr>"
  by (simp add: normalizeSchemaName_def string_eval writer_eval object_eval)

text \<open>
  C7. The claim as stated fails where the converted document has an array-index key:
  JavaScript lists such keys first, so \<open>$schema\<close> comes after them. For the target
  \<open>openapi-3.0\<close> (the command line passes any target on) the external function returns
  \<open>{"1": "a"}\<close>, the converted document \<open>{"1": "a", "title": "User"}\<close> has no
  \<open>$schema\<close> key, and the document written has \<open>$schema\<close> as its second key.
\<close>

theorem separate_schema_not_first:
  "writeSeparateOutputs (\<lambda>s opts. Inr (JObj [(''1'', JStr ''a'')])) (\<lambda>p. True)
     [\<lparr>name = ''User'', schema = ()\<rparr>] ''/out'' ''openapi-3.0'' False
   = \<lparr>written = [(''/out/User.json'',
          Compact (JObj [(''1'', JStr ''a''),
                         (''$schema'', JStr ''https://json-schema.org/draft/2020-12/schema''),
                         (''title'', JStr ''User'')]))],
       errorCount = 0, successCount = 1\<rparr>"
  by (simp add: writer_eval object_eval)

text \<open>
  C7, amended. In separate mode, for every schema whose conversion gives a document (and
  whose file can be written), the document written to \<open>{outputDir}/{name}.json\<close> is the
  converted document when that has a \<open>$schema\<close> key; otherwise it is the converted
  document with \<open>$schema\<close>, holding the URL of the target, put after its array-index
  keys and before all its other keys, so \<open>$schema\<close> is the first key when the converted
  document has no array-index key. Every document separate mode writes has a \<open>$schema\<close>
  key. The URL of \<open>draft-7\<close> is \<open>http://json-schema.org/draft-07/schema#\<close>, that of
  \<open>draft-2020-12\<close> is \<open>https://json-schema.org/draft/2020-12/schema\<close>.
\<close>

theorem separate_schema_key:
  assumes "e \<in> set schemaList"
    and "convertToJsonSchema c (schema e) (name e) t = Inr (JObj js)"
    and "js_object js"
    and "w (path_join d (name e @ ''.json''))"
  shows "(path_join d (name e @ ''.json''),
          stringify f (JObj (if has_key ''$schema'' js then js
                             else filter is_index_entry js
                                  @ (''$schema'', JStr (getSchemaUrl t))
                                  # filter (\<lambda>kv. \<not> is_index_entry kv) js)))
           \<in> set (written (writeSeparateOutputs c w schemaList d t f))
         \<and> (\<not> has_key ''$schema'' js \<and> filter is_index_entry js = [] \<longrightarrow>
              (path_join d (name e @ ''.json''),
               stringify f (JObj ((''$schema'', JStr (getSchemaUrl t)) # js)))
              \<in> set (written (writeSeparateOutputs c w schemaList d t f)))
         \<and> (\<forall>pc \<in> set (written (writeSeparateOutputs c w schemaList d t f)).
               \<exists>doc. snd pc = stringify f (JObj doc) \<and> has_key ''$schema'' doc)
         \<and> getSchemaUrl ''draft-7'' = ''http://json-schema.org/draft-07/schema#''
         \<and> getSchemaUrl ''draft-2020-12'' = ''https://json-schema.org/draft/2020-12/schema''"
proof -
  define final where
    "final = (if has_key ''$schema'' js then js
              else filter is_index_entry js @ (''$schema'', JStr (getSchemaUrl t))
                   # filter (\<lambda>kv. \<not> is_index_entry kv) js)"
  have placed: "spread [(''$schema'', JStr (getSchemaUrl t))] js
        = filter is_index_entry js @ (''$schema'', JStr (getSchemaUrl t))
          # filter (\<lambda>kv. \<not> is_index_entry kv) js"
    if "\<not> has_key ''$schema'' js"
    using that by (intro spread_onto_named [OF assms(3)]) (simp_all add: has_key_def array_index_named)
  have keyed: "\<forall>pc \<in> set (written (writeSeparateOutputs c w schemaList d t f)).
               \<exists>doc. snd pc = stringify f (JObj doc) \<and> has_key ''$schema'' doc"
    unfolding writeSeparateOutputs_def by (rule separate_loop_keyed) simp
  have "(path_join d (name e @ ''.json''),
          stringify f (JObj (if has_key ''$schema'' js then js
                             else spread [(''$schema'', JStr (getSchemaUrl t))] js)))
           \<in> set (written (writeSeparateOutputs c w schemaList d t f))"
    unfolding writeSeparateOutputs_def
    using assms(1,2,4) by (rule separate_loop_writes [where c = c and w = w])
  then have there: "(path_join d (name e @ ''.json''), stringify f (JObj final))
           \<in> set (written (writeSeparateOutputs c w schemaList d t f))"
    using placed by (simp add: final_def split: if_splits)
  have first: "final = (''$schema'', JStr (getSchemaUrl t)) # js"
    if "\<not> has_key ''$schema'' js" and "filter is_index_entry js = []"
  proof -
    have "js = filter is_index_entry js @ filter (\<lambda>kv. \<not> is_index_entry kv) js"
      using assms(3) by (simp add: js_object_def)
    with that(2) have "filter (\<lambda>kv. \<not> is_index_entry kv) js = js" by simp
    with that show ?thesis by (simp add: final_def)
  qed
  have urls: "getSchemaUrl ''draft-7'' = ''http://json-schema.org/draft-07/schema#''"
    "getSchemaUrl ''draft-2020-12'' = ''https://json-schema.org/draft/2020-12/schema''"
    by (simp_all add: getSchemaUrl_def)
  have front: "\<not> has_key ''$schema'' js \<and> filter is_index_entry js = [] \<longrightarrow>
              (path_join d (name e @ ''.json''),
               stringify f (JObj ((''$schema'', JStr (getSchemaUrl t)) # js)))
              \<in> set (written (writeSeparateOutputs c w schemaList d t f))"
    using there first by auto
  from there [unfolded final_def] front keyed urls show ?thesis by blast
qed

text \<open>
  Three schemas for \<open>draft-7\<close>: the document of the first has no \<open>$schema\<close> key, that
  of the second has one, that of the third has none and the array-index key \<open>1\<close>.
\<close>

theorem separate_schema_key_witness:
  "(''/out/User.json'',
      Compact (JObj [(''$schema'', JStr ''http://json-schema.org/draft-07/schema#''),
                     (''title'', JStr ''User''), (''type'', JStr ''object'')]))
     \<in> set (written (writeSeparateOutputs
          (\<lambda>s opts. if s = 0 then Inr (JObj [(''type'', JStr ''object'')])
                     else if s = 1 then Inr (JObj [(''$schema'', JStr ''mine''), (''title'', JStr ''T'')])
                     else Inr (JObj [(''1'', JStr ''a'')]))
          (\<lambda>p. True)
          [\<lparr>name = ''User'', schema = (0::nat)\<rparr>, \<lparr>name = ''Post'', schema = 1\<rparr>,
           \<lparr>name = ''Tag'', schema = 2\<rparr>]
          ''/out'' ''draft-7'' False))
   \<and> (''/out/Post.json'', Compact (JObj [(''$schema'', JStr ''mine''), (''title'', JStr ''T'')]))
     \<in> set (written (writeSeparateOutputs
          (\<lambda>s opts. if s = 0 then Inr (JObj [(''type'', JStr ''object'')])
                     else if s = 1 then Inr (JObj [(''$schema'', JStr ''mine''), (''title'', JStr ''T'')])
                     else Inr (JObj [(''1'', JStr ''a'')]))
          (\<lambda>p. True)
          [\<lparr>name = ''User'', schema = (0::nat)\<rparr>, \<lparr>name = ''Post'', schema = 1\<rparr>,
           \<lparr>name = ''Tag'', schema = 2\<rparr>]
          ''/out'' ''draft-7'' False))
   \<and> (''/out/Tag.json'',
      Compact (JObj [(''1'', JStr ''a''),
                     (''$schema'', JStr ''http://json-schema.org/draft-07/schema#''),
                     (''title'', JStr ''Tag'')]))
     \<in> set (written (writeSeparateOutputs
          (\<lambda>s opts. if s = 0 then Inr (JObj [(''type'', JStr ''object'')])
                     else if s = 1 then Inr (JObj [(''$schema'', JStr ''mine''), (''title'', JStr ''T'')])
                     else Inr (JObj [(''1'', JStr ''a'')]))
          (\<lambda>p. True)
          [\<lparr>name = ''User'', schema = (0::nat)\<rparr>, \<lparr>name = ''Post'', schema = 1\<rparr>,
           \<lparr>name = ''Tag'', schema = 2\<rparr>]
          ''/out'' ''draft-7'' False))"
proof -
  let ?c = "\<lambda>(s::nat) (opts::to_json_options).
     if s = 0 then Inr (JObj [(''type'', JStr ''object'')])
     else if s = 1 then Inr (JObj [(''$schema'', JStr ''mine''), (''title'', JStr ''T'')])
     else (Inr (JObj [(''1'', JStr ''a'')]) :: string + json)"
  let ?w = "\<lambda>p::string. True"
  let ?u = "\<lparr>name = ''User'', schema = (0::nat)\<rparr>"
  let ?p = "\<lparr>name = ''Post'', schema = (1::nat)\<rparr>"
  let ?g = "\<lparr>name = ''Tag'', schema = (2::nat)\<rparr>"
  let ?ju = "[(''title'', JStr ''User''), (''type'', JStr ''object'')]"
  let ?jp = "[(''$schema'', JStr ''mine''), (''title'', JStr ''T'')]"
  let ?jg = "[(''1'', JStr ''a''), (''title'', JStr ''Tag'')]"
  have u1: "?u \<in> set [?u, ?p, ?g]" and p1: "?p \<in> set [?u, ?p, ?g]"
    and g1: "?g \<in> set [?u, ?p, ?g]" by simp_all
  have u2: "convertToJsonSchema ?c (schema ?u) (name ?u) ''draft-7'' = Inr (JObj ?ju)"
    by (simp add: convertToJsonSchema_def has_key_def object_eval)
  have p2: "convertToJsonSchema ?c (schema ?p) (name ?p) ''draft-7'' = Inr (JObj ?jp)"
    by (simp add: convertToJsonSchema_def has_key_def object_eval)
  have g2: "convertToJsonSchema ?c (schema ?g) (name ?g) ''draft-7'' = Inr (JObj ?jg)"
    by (simp add: convertToJsonSchema_def has_key_def object_eval)
  have u3: "js_object ?ju" and p3: "js_object ?jp" and g3: "js_object ?jg"
    by (simp_all add: object_eval)
  have u4: "?w (path_join ''/out'' (name ?u @ ''.json''))"
    and p4: "?w (path_join ''/out'' (name ?p @ ''.json''))"
    and g4: "?w (path_join ''/out'' (name ?g @ ''.json''))" by simp_all
  from separate_schema_key [where c = ?c and w = ?w and f = False and d = "''/out''",
      OF u1 u2 u3 u4]
  have a: "(''/out/User.json'',
      Compact (JObj [(''$schema'', JStr ''http://json-schema.org/draft-07/schema#''),
                     (''title'', JStr ''User''), (''type'', JStr ''object'')]))
     \<in> set (written (writeSeparateOutputs ?c ?w [?u, ?p, ?g] ''/out'' ''draft-7'' False))"
    by (simp add: has_key_def path_join_def stringify_def getSchemaUrl_def object_eval)
  from separate_schema_key [where c = ?c and w = ?w and f = False and d = "''/out''",
      OF p1 p2 p3 p4]
  have b: "(''/out/Post.json'', Compact (JObj ?jp))
     \<in> set (written (writeSeparateOutputs ?c ?w [?u, ?p, ?g] ''/out'' ''draft-7'' False))"
    by (simp add: has_key_def path_join_def stringify_def getSchemaUrl_def object_eval)
  from separate_schema_key [where c = ?c and w = ?w and f = False and d = "''/out''",
      OF g1 g2 g3 g4]
  have c: "(''/out/Tag.json'',
      Compact (JObj [(''1'', JStr ''a''),
                     (''$schema'', JStr ''http://json-schema.org/draft-07/schema#''),
                     (''title'', JStr ''Tag'')]))
     \<in> set (written (writeSeparateOutputs ?c ?w [?u, ?p, ?g] ''/out'' ''draft-7'' False))"
    by (simp add: has_key_def path_join_def stringify_def getSchemaUrl_def object_eval)
  from a b c show ?thesis by blast
qed

text \<open>
  C8. When the external function raises for a schema, \<open>convertToJsonSchema\<close> raises
  an error whose message holds the schema's name. Each writer's loop body then adds
  exactly one to the error count and changes nothing else (no file, no \<open>$defs\<close> entry,
  no success counted), and the loop goes on: the run over a list that holds the failing
  schema is the run over the schemas before it, one more error, and then the run over
  the schemas after it.
\<close>

theorem conversion_failure_is_local:
  assumes "c (schema e) (adapter_options t) = Inl msg"
  shows "convertToJsonSchema c (schema e) (name e) t
           = Inl (Error (''Failed to convert schema '' @ [CHR 0x22] @ name e @ [CHR 0x22]
                          @ '': '' @ msg))
    \<and> separate_step c w d t f st e = st\<lparr>errorCount := errorCount st + 1\<rparr>
    \<and> written (separate_step c w d t f st e) = written st
    \<and> successCount (separate_step c w d t f st e) = successCount st
    \<and> combined_step c t cst e = cst\<lparr>errorCount := errorCount cst + 1\<rparr>
    \<and> defs (combined_step c t cst e) = defs cst
    \<and> writeSeparateOutputs c w (pre @ e # post) d t f
        = foldl (separate_step c w d t f)
            ((writeSeparateOutputs c w pre d t f)
               \<lparr>errorCount := errorCount (writeSeparateOutputs c w pre d t f) + 1\<rparr>) post
    \<and> combined_loop c t (pre @ e # post)
        = foldl (combined_step c t)
            ((combined_loop c t pre)\<lparr>errorCount := errorCount (combined_loop c t pre) + 1\<rparr>)
            post"
proof -
  note cf = convert_fails [where c = c, OF assms, of "name e"]
  have s: "separate_step c w d t f st e = st\<lparr>errorCount := errorCount st + 1\<rparr>" for st
    by (simp add: separate_step_def cf)
  have k: "combined_step c t cst e = cst\<lparr>errorCount := errorCount cst + 1\<rparr>" for cst
    by (simp add: combined_step_def cf)
  show ?thesis
    by (simp add: cf s k writeSeparateOutputs_def combined_loop_def)
qed

text \<open>The external function raises for \<open>Bad\<close> and converts \<open>Good\<close>.\<close>

theorem conversion_failure_is_local_witness:
  "convertToJsonSchema
     (\<lambda>s opts. if s then Inl ''TypeError: boom'' else Inr (JObj [(''type'', JStr ''string'')]))
     True ''Bad'' ''draft-7''
   = Inl (Error (''Failed to convert schema '' @ [CHR 0x22] @ ''Bad'' @ [CHR 0x22]
                  @ '': TypeError: boom''))
   \<and> writeSeparateOutputs
     (\<lambda>s opts. if s then Inl ''TypeError: boom'' else Inr (JObj [(''type'', JStr ''string'')]))
     (\<lambda>p. True) [\<lparr>name = ''Bad'', schema = True\<rparr>, \<lparr>name = ''Good'', schema = False\<rparr>]
     ''/out'' ''draft-7'' True
   = \<lparr>written = [(''/out/Good.json'',
         Pretty (JObj [(''$schema'', JStr ''http://json-schema.org/draft-07/schema#''),
                       (''title'', JStr ''Good''), (''type'', JStr ''string'')]))],
      errorCount = 1, successCount = 1\<rparr>"
proof -
  let ?c = "\<lambda>(s::bool) (opts::to_json_options).
     if s then Inl ''TypeError: boom'' else (Inr (JObj [(''type'', JStr ''string'')]) :: string + json)"
  let ?w = "\<lambda>p::string. True"
  let ?bad = "\<lparr>name = ''Bad'', schema = True\<rparr>"
  let ?good = "\<lparr>name = ''Good'', schema = False\<rparr>"
  have h: "?c (schema ?bad) (adapter_options ''draft-7'') = Inl ''TypeError: boom''" by simp
  note th = conversion_failure_is_local [where c = ?c and e = ?bad and w = ?w
      and d = "''/out''" and f = True and pre = "[]" and post = "[?good]", OF h]
  from th have a: "convertToJsonSchema ?c True ''Bad'' ''draft-7''
     = Inl (Error (''Failed to convert schema '' @ [CHR 0x22] @ ''Bad'' @ [CHR 0x22]
                  @ '': TypeError: boom''))"
    by simp
  from th have "writeSeparateOutputs ?c ?w [?bad, ?good] ''/out'' ''draft-7'' True
     = foldl (separate_step ?c ?w ''/out'' ''draft-7'' True)
         ((writeSeparateOutputs ?c ?w [] ''/out'' ''draft-7'' True)
            \<lparr>errorCount := errorCount (writeSeparateOutputs ?c ?w [] ''/out'' ''draft-7'' True) + 1\<rparr>)
         [?good]"
    by simp
  also have "\<dots> = \<lparr>written = [(''/out/Good.json'',
         Pretty (JObj [(''$schema'', JStr ''http://json-schema.org/draft-07/schema#''),
                       (''title'', JStr ''Good''), (''type'', JStr ''string'')]))],
      errorCount = 1, successCount = 1\<rparr>"
    by (simp add: writer_eval object_eval)
  finally show ?thesis using a by blast
qed

text \<open>
  C9. \<open>normalizeSchemaName\<close> maps the name \<open>Schema\<close> to the empty string. An export
  \<open>Schema\<close> that is a schema object qualifies, is collected under the empty name, and
  a scan of one such file is aggregated to one export with the empty name; separate
  mode writes its document to \<open>{outputDir}/.json\<close>.
\<close>

theorem export_named_Schema:
  "normalizeSchemaName ''Schema'' = []
   \<and> (isZodSchema v \<longrightarrow>
        extractSchemasFromFile [(''Schema'', v)] verbose = [\<lparr>name = [], schema = v\<rparr>])
   \<and> (load (path_join dir file) = Inr [(''Schema'', v)] \<and> isZodSchema v \<longrightarrow>
        flattenSchemas (scanDirectory load dir [file] verbose) = [\<lparr>name = [], schema = v\<rparr>])
   \<and> (convertToJsonSchema c v [] t = Inr (JObj js) \<and> w (path_join d ''.json'') \<longrightarrow>
        map fst (written (writeSeparateOutputs c w [\<lparr>name = [], schema = v\<rparr>] d t f))
        = [d @ ''/.json''])"
proof -
  have n: "normalizeSchemaName ''Schema'' = []"
    by (simp add: normalizeSchemaName_def string_eval)
  have x: "extractSchemasFromFile [(''Schema'', v)] verbose = [\<lparr>name = [], schema = v\<rparr>]"
    if "isZodSchema v" for verbose
    using that by (simp add: extractSchemasFromFile_def extract_entry_def n endsWith_def)
  have s: "flattenSchemas (scanDirectory load dir [file] verbose) = [\<lparr>name = [], schema = v\<rparr>]"
    if "load (path_join dir file) = Inr [(''Schema'', v)]" and "isZodSchema v"
    using that by (simp add: scanDirectory_def scan_file_def x flatten_eval)
  have o: "map fst (written (writeSeparateOutputs c w [\<lparr>name = [], schema = v\<rparr>] d t f))
           = [d @ ''/.json'']"
    if "convertToJsonSchema c v [] t = Inr (JObj js)" and "w (path_join d ''.json'')"
    using that by (simp add: writeSeparateOutputs_def separate_step_def Let_def path_join_def)
  from n x s o show ?thesis by blast
qed

theorem export_named_Schema_witness:
  "extractSchemasFromFile [(''Schema'', VObject [(''_def'', VObject [])])] False
     = [\<lparr>name = [], schema = VObject [(''_def'', VObject [])]\<rparr>]
   \<and> map fst (written (writeSeparateOutputs (\<lambda>s opts. Inr (JObj [])) (\<lambda>p. True)
        [\<lparr>name = [], schema = VObject [(''_def'', VObject [])]\<rparr>] ''/out'' ''draft-7'' True))
     = [''/out/.json'']"
proof -
  let ?v = "VObject [(''_def'', VObject [])]"
  let ?c = "\<lambda>(s::jsval) (opts::to_json_options). (Inr (JObj []) :: string + json)"
  let ?w = "\<lambda>p::string. True"
  have z: "isZodSchema ?v"
    by (simp add: isZodSchema_def has_property_def get_property_def)
  have k: "convertToJsonSchema ?c ?v [] ''draft-7'' = Inr (JObj [(''title'', JStr [])])"
    by (simp add: convertToJsonSchema_def has_key_def spread_def)
  have p: "?w (path_join ''/out'' ''.json'')" by simp
  note th = export_named_Schema [where v = ?v and c = ?c and w = ?w and d = "''/out''"
      and t = "''draft-7''" and js = "[(''title'', JStr [])]" and f = True and verbose = False]
  from th z have a: "extractSchemasFromFile [(''Schema'', ?v)] False = [\<lparr>name = [], schema = ?v\<rparr>]"
    by blast
  from th k p have b: "map fst (written (writeSeparateOutputs ?c ?w [\<lparr>name = [], schema = ?v\<rparr>]
        ''/out'' ''draft-7'' True)) = [''/out'' @ ''/.json'']"
    by blast
  from a b show ?thesis by simp
qed

text \<open>
  C10. \<open>writeCombinedOutput\<close> writes \<open>schemas.json\<close> whatever the conversions did
  and for every schema list, the empty one included: when the file can be written, the
  result is the one file \<open>{outputDir}/schemas.json\<close> holding \<open>$schema\<close> (the URL of the
  target) and \<open>$defs\<close>; when every conversion fails, \<open>$defs\<close> is empty and the error
  count is the number of schemas. (When the file cannot be written, the error of the
  write is raised.)
\<close>

theorem combined_always_writes:
  assumes "w (path_join d ''schemas.json'')"
  shows "\<exists>r. writeCombinedOutput c w schemaList d t f = Inr r
     \<and> written r = [(path_join d ''schemas.json'',
          stringify f (JObj [(''$schema'', JStr (getSchemaUrl t)), (''$defs'', JObj (defs r))]))]
     \<and> ((\<forall>e \<in> set schemaList. \<exists>err. convertToJsonSchema c (schema e) (name e) t = Inl err)
          \<longrightarrow> defs r = [] \<and> errorCount r = length schemaList)"
proof -
  define r where
    "r = (combined_loop c t schemaList)
           \<lparr>written := written (combined_loop c t schemaList)
              @ [(path_join d ''schemas.json'',
                  stringify f (JObj [(''$schema'', JStr (getSchemaUrl t)),
                    (''$defs'', JObj (defs (combined_loop c t schemaList)))]))]\<rparr>"
  have run: "writeCombinedOutput c w schemaList d t f = Inr r"
    using assms by (simp add: writeCombinedOutput_def r_def Let_def)
  have wr: "written r = [(path_join d ''schemas.json'',
              stringify f (JObj [(''$schema'', JStr (getSchemaUrl t)), (''$defs'', JObj (defs r))]))]"
    by (simp add: r_def combined_loop_def combined_loop_written)
  have fail: "defs r = [] \<and> errorCount r = length schemaList"
    if "\<forall>e \<in> set schemaList. \<exists>err. convertToJsonSchema c (schema e) (name e) t = Inl err"
    using combined_loop_all_fail [OF that, of "\<lparr>written = [], errorCount = 0, defs = []\<rparr>"]
    by (simp add: r_def combined_loop_def)
  from run wr fail show ?thesis by blast
qed

text \<open>Two schemas, and the external function raises for both.\<close>

theorem combined_always_writes_witness:
  "writeCombinedOutput (\<lambda>s opts. Inl ''boom'') (\<lambda>p. True)
     [\<lparr>name = ''A'', schema = ()\<rparr>, \<lparr>name = ''B'', schema = ()\<rparr>] ''/out'' ''draft-2020-12'' True
   = Inr \<lparr>written = [(''/out/schemas.json'',
            Pretty (JObj [(''$schema'', JStr ''https://json-schema.org/draft/2020-12/schema''),
                          (''$defs'', JObj [])]))],
          errorCount = 2, defs = []\<rparr>"
proof -
  let ?c = "\<lambda>(s::unit) (opts::to_json_options). (Inl ''boom'' :: string + json)"
  let ?w = "\<lambda>p::string. True"
  let ?l = "[\<lparr>name = ''A'', schema = ()\<rparr>, \<lparr>name = ''B'', schema = ()\<rparr>]"
  have p: "?w (path_join ''/out'' ''schemas.json'')" by simp
  have allfail: "\<forall>e \<in> set ?l. \<exists>err. convertToJsonSchema ?c (schema e) (name e) ''draft-2020-12'' = Inl err"
    by (simp add: convertToJsonSchema_def)
  from combined_always_writes [where w = ?w and c = ?c and d = "''/out''" and schemaList = ?l
      and t = "''draft-2020-12''" and f = True, OF p] allfail
  obtain r where r: "writeCombinedOutput ?c ?w ?l ''/out'' ''draft-2020-12'' True = Inr r"
    and wr: "written r = [(path_join ''/out'' ''schemas.json'',
          stringify True (JObj [(''$schema'', JStr (getSchemaUrl ''draft-2020-12'')),
             (''$defs'', JObj (defs r))]))]"
    and d: "defs r = []" and n: "errorCount r = length ?l"
    by blast
  have "r = \<lparr>written = [(''/out/schemas.json'',
            Pretty (JObj [(''$schema'', JStr ''https://json-schema.org/draft/2020-12/schema''),
                          (''$defs'', JObj [])]))],
          errorCount = 2, defs = []\<rparr>"
    using wr d n by (cases r) (simp add: path_join_def stringify_def getSchemaUrl_def)
  with r show ?thesis by simp
qed

end
